theory Spec2Isabelle
  imports Complex_Main "HOL-Library.Char_ord" "HOL-Library.List_Lexorder" "HOL-Library.AList"
begin

section \<open>Data model (types.ts, constants.ts)\<close>

text \<open>
  A JavaScript string is modelled as a \<^typ>\<open>string\<close>; the order on strings is the
  lexicographic order on character codes, which is how \<^verbatim>\<open>Array.prototype.sort\<close>
  without a comparator and \<^verbatim>\<open>===\<close> treat them. Field names that several interfaces share, or that are reserved words here, carry a
  suffix naming their interface.
\<close>

record ModelConfig =
  id_mc :: string
  name_mc :: string
  color_mc :: string

datatype MediaType = video | image

datatype AppStage = SETUP | UPLOAD | ARENA | RESULTS

definition MAX_MODELS :: nat where
  "MAX_MODELS = 5"

definition MIN_MODELS :: nat where
  "MIN_MODELS = 2"

definition MODEL_COLORS :: "string list" where
  "MODEL_COLORS = [''#6366f1'', ''#ec4899'', ''#10b981'', ''#f59e0b'', ''#3b82f6'']"

text \<open>Decimal rendering of a non-negative integer inside a template literal.\<close>

fun show_nat :: "nat \<Rightarrow> string" where
  "show_nat n =
     (if n < 10 then [char_of (48 + n)]
      else show_nat (n div 10) @ [char_of (48 + n mod 10)])"

declare show_nat.simps [simp del]

section \<open>SetupScreen: the configured model list\<close>

record SetupState =
  mediaType_s :: MediaType
  isBlind_s :: bool
  models_s :: "ModelConfig list"

definition SetupScreen_init :: SetupState where
  "SetupScreen_init =
     \<lparr> mediaType_s = video, isBlind_s = False,
       models_s =
         [ \<lparr> id_mc = ''m1'', name_mc = ''Baseline (v1.0)'', color_mc = MODEL_COLORS ! 0 \<rparr>,
           \<lparr> id_mc = ''m2'', name_mc = ''Experimental (v1.1)'', color_mc = MODEL_COLORS ! 1 \<rparr> ] \<rparr>"

text \<open>\<^verbatim>\<open>addModel\<close>; the argument \<open>now\<close> is the value of \<^verbatim>\<open>Date.now()\<close>.\<close>

definition addModel :: "nat \<Rightarrow> ModelConfig list \<Rightarrow> ModelConfig list" where
  "addModel now models =
     (if length models < MAX_MODELS then
        (let idx = length models in
         models @
           [ \<lparr> id_mc = ''m'' @ show_nat now,
               name_mc = ''Model '' @ [char_of (65 + idx)],
               color_mc = MODEL_COLORS ! (idx mod length MODEL_COLORS) \<rparr> ])
      else models)"

text \<open>
  \<^verbatim>\<open>splice(index, 1)\<close> on a copy: a negative index counts from the end, an index
  past the end removes nothing.
\<close>

definition splice1 :: "int \<Rightarrow> 'a list \<Rightarrow> 'a list" where
  "splice1 index xs =
     (let n = int (length xs);
          start = (if index < 0 then max (n + index) 0 else min index n)
      in take (nat start) xs @ drop (Suc (nat start)) xs)"

definition removeModel :: "int \<Rightarrow> ModelConfig list \<Rightarrow> ModelConfig list" where
  "removeModel index models =
     (if length models > MIN_MODELS then splice1 index models else models)"

datatype error = TypeError string | Error string

text \<open>
  \<^verbatim>\<open>updateName\<close>: \<^verbatim>\<open>newModels[index].name = name\<close> throws a TypeError when the
  index is outside the list, and then \<^verbatim>\<open>setModels\<close> is never reached.
\<close>

definition updateName :: "int \<Rightarrow> string \<Rightarrow> ModelConfig list \<Rightarrow> error + ModelConfig list" where
  "updateName index name models =
     (if 0 \<le> index \<and> index < int (length models)
      then Inr (models [nat index := (models ! nat index) \<lparr> name_mc := name \<rparr>])
      else Inl (TypeError ''Cannot set properties of undefined''))"

datatype SetupEvent =
    AddModel nat
  | RemoveModel int
  | UpdateName int string
  | SetMediaType MediaType
  | ToggleBlind

fun setup_step :: "SetupState \<Rightarrow> SetupEvent \<Rightarrow> SetupState" where
  "setup_step s (AddModel now) = s \<lparr> models_s := addModel now (models_s s) \<rparr>"
| "setup_step s (RemoveModel i) = s \<lparr> models_s := removeModel i (models_s s) \<rparr>"
| "setup_step s (UpdateName i name) =
     (case updateName i name (models_s s) of
        Inl e \<Rightarrow> s
      | Inr ms \<Rightarrow> s \<lparr> models_s := ms \<rparr>)"
| "setup_step s (SetMediaType t) = s \<lparr> mediaType_s := t \<rparr>"
| "setup_step s ToggleBlind = s \<lparr> isBlind_s := \<not> isBlind_s s \<rparr>"

definition setup_run :: "SetupEvent list \<Rightarrow> SetupState" where
  "setup_run evs = foldl setup_step SetupScreen_init evs"

section \<open>App: stages and the model list handed downstream\<close>

text \<open>
  The part of the state of \<^verbatim>\<open>App\<close> that decides which component is rendered and
  which model list it receives. \<^verbatim>\<open>SetupScreen\<close> is mounted (with its initial state)
  whenever the stage is \<^verbatim>\<open>SETUP\<close>; its handlers can only fire then.
  \<^verbatim>\<open>BulkUploadZone\<close>, \<^verbatim>\<open>ComparisonArena\<close> and the results view are the downstream
  components, rendered at the three other stages.
\<close>

record AppState =
  stage :: AppStage
  models_a :: "ModelConfig list"
  mediaType_a :: MediaType
  isBlind_a :: bool
  setup_a :: SetupState

definition App_init :: AppState where
  "App_init =
     \<lparr> stage = SETUP, models_a = [], mediaType_a = video, isBlind_a = False,
       setup_a = SetupScreen_init \<rparr>"

datatype AppEvent =
    Setup SetupEvent
  | StartSession
  | StartEvaluation
  | LastVote
  | Reset bool

text \<open>
  \<open>StartSession\<close> is the button calling \<^verbatim>\<open>onComplete(models, mediaType, isBlind)\<close>,
  that is \<^verbatim>\<open>handleSetupComplete\<close>; \<open>StartEvaluation\<close> is \<^verbatim>\<open>handleStartQueue\<close>;
  \<open>LastVote\<close> is the branch of \<^verbatim>\<open>handleNextVote\<close> that moves to the results;
  \<open>Reset ok\<close> is \<^verbatim>\<open>handleReset\<close> with the answer of \<^verbatim>\<open>window.confirm\<close>.
\<close>

fun app_step :: "AppState \<Rightarrow> AppEvent \<Rightarrow> AppState" where
  "app_step a (Setup ev) =
     (if stage a = SETUP then a \<lparr> setup_a := setup_step (setup_a a) ev \<rparr> else a)"
| "app_step a StartSession =
     (if stage a = SETUP
      then a \<lparr> models_a := models_s (setup_a a), mediaType_a := mediaType_s (setup_a a),
               isBlind_a := isBlind_s (setup_a a), stage := UPLOAD \<rparr>
      else a)"
| "app_step a StartEvaluation = (if stage a = UPLOAD then a \<lparr> stage := ARENA \<rparr> else a)"
| "app_step a LastVote = (if stage a = ARENA then a \<lparr> stage := RESULTS \<rparr> else a)"
| "app_step a (Reset ok) =
     (if stage a \<noteq> SETUP \<and> ok
      then a \<lparr> stage := SETUP, models_a := [], isBlind_a := False, setup_a := SetupScreen_init \<rparr>
      else a)"

definition app_run :: "AppEvent list \<Rightarrow> AppState" where
  "app_run evs = foldl app_step App_init evs"

text \<open>The bound on the number of configured models, and the invariant of \<^verbatim>\<open>App\<close>.\<close>

definition count_ok :: "ModelConfig list \<Rightarrow> bool" where
  "count_ok ms = (MIN_MODELS \<le> length ms \<and> length ms \<le> MAX_MODELS)"

definition app_inv :: "AppState \<Rightarrow> bool" where
  "app_inv a = (count_ok (models_s (setup_a a)) \<and> (stage a = SETUP \<or> count_ok (models_a a)))"

section \<open>BulkUploadZone: the case matcher\<close>

text \<open>A \<^verbatim>\<open>File\<close> of the browser: its name and its MIME type (empty when unknown).\<close>

record File =
  name_f :: string
  type_f :: string

record VideoSource =
  modelId_vs :: string
  file_vs :: "File option"
  url_vs :: "string option"
  name_vs :: string

record TestCase =
  id_tc :: string
  name_tc :: string
  sources_tc :: "VideoSource list"

text \<open>
  \<^verbatim>\<open>filename.replace(/\.[^/.]+$/, "")\<close>: the expression matches a dot followed, up to
  the end of the string, by one or more characters other than \<^verbatim>\<open>/\<close> and \<^verbatim>\<open>.\<close>;
  so only the last dot of the name can start a match. Read from the end: the characters
  after the last dot or slash are the extension, and they are removed together with the
  dot when it is a dot that precedes them and they are not empty.
\<close>

definition ext_char :: "char \<Rightarrow> bool" where
  "ext_char c = (c \<noteq> CHR ''/'' \<and> c \<noteq> CHR ''.'')"

definition getBaseName :: "string \<Rightarrow> string" where
  "getBaseName filename =
     (let r = rev filename;
          ext = takeWhile ext_char r;
          rest = dropWhile ext_char r
      in case rest of
           [] \<Rightarrow> filename
         | c # pre \<Rightarrow> if c = CHR ''.'' \<and> ext \<noteq> [] then rev pre else filename)"

text \<open>\<^verbatim>\<open>String.prototype.startsWith\<close>, and the suffix test behind a pattern ending in \<^verbatim>\<open>$\<close>.\<close>

definition startsWith :: "string \<Rightarrow> string \<Rightarrow> bool" where
  "startsWith s p = (take (length p) s = p)"

definition endsWith :: "string \<Rightarrow> string \<Rightarrow> bool" where
  "endsWith s p = (length p \<le> length s \<and> drop (length s - length p) s = p)"

text \<open>The flag \<^verbatim>\<open>i\<close> of the two extension patterns folds the letters A to Z.\<close>

definition toLower :: "char \<Rightarrow> char" where
  "toLower c = (if CHR ''A'' \<le> c \<and> c \<le> CHR ''Z'' then char_of (of_char c + (32 :: nat)) else c)"

definition test_ext :: "string list \<Rightarrow> string \<Rightarrow> bool" where
  "test_ext exts name = list_ex (\<lambda>e. endsWith (map toLower name) (CHR ''.'' # e)) exts"

text \<open>
  The filter of \<^verbatim>\<open>handleFolderSelect\<close>: the MIME type starts with the prefix of the
  media kind, or the name ends in one of the extensions of that kind.
\<close>

definition validFile :: "MediaType \<Rightarrow> File \<Rightarrow> bool" where
  "validFile mediaType f =
     (let mimePrefix = (if mediaType = video then ''video/'' else ''image/'') in
      if type_f f \<noteq> [] \<and> startsWith (type_f f) mimePrefix then True
      else if mediaType = video \<and> test_ext [''mp4'', ''webm'', ''mov'', ''mkv'', ''avi''] (name_f f) then True
      else if mediaType = image \<and> test_ext [''jpg'', ''jpeg'', ''png'', ''webp'', ''gif'', ''bmp''] (name_f f) then True
      else False)"

text \<open>
  The state \<^verbatim>\<open>modelFiles\<close>, an object from model ids to file arrays, as an association
  list: \<^verbatim>\<open>Object.keys\<close> is the list of its keys, an assignment replaces the value of a
  key or appends a new key, \<^verbatim>\<open>delete\<close> removes the key.
\<close>

type_synonym ModelFiles = "(string \<times> File list) list"

text \<open>\<open>files\<close> is \<^verbatim>\<open>e.target.files\<close>, which may be \<^verbatim>\<open>null\<close>.\<close>

definition handleFolderSelect ::
  "MediaType \<Rightarrow> string \<Rightarrow> File list option \<Rightarrow> ModelFiles \<Rightarrow> ModelFiles" where
  "handleFolderSelect mediaType modelId files modelFiles =
     (case files of
        None \<Rightarrow> modelFiles
      | Some fileList \<Rightarrow> AList.update modelId (filter (validFile mediaType) fileList) modelFiles)"

definition removeFiles :: "string \<Rightarrow> ModelFiles \<Rightarrow> ModelFiles" where
  "removeFiles modelId modelFiles = AList.delete modelId modelFiles"

text \<open>
  The test \<^verbatim>\<open>models.every(...)\<close> inside \<^verbatim>\<open>matches\<close>; \<open>firstId\<close> is
  \<^verbatim>\<open>models[0].id\<close>, and \<^verbatim>\<open>modelFiles[m.id]?.some(...)\<close> is falsy for a missing key.
\<close>

definition existsInAll :: "ModelConfig list \<Rightarrow> ModelFiles \<Rightarrow> string \<Rightarrow> string \<Rightarrow> bool" where
  "existsInAll models modelFiles firstId baseName =
     list_all (\<lambda>m.
        if id_mc m = firstId then True
        else (case map_of modelFiles (id_mc m) of
                None \<Rightarrow> False
              | Some fs \<Rightarrow> list_ex (\<lambda>f. getBaseName (name_f f) = baseName) fs)) models"

text \<open>
  The \<^verbatim>\<open>forEach\<close> over the files of the first model, with the set
  \<^verbatim>\<open>processedBaseNames\<close> and the array \<^verbatim>\<open>commonBaseNames\<close> it updates.
\<close>

fun collectCommon ::
  "(string \<Rightarrow> bool) \<Rightarrow> File list \<Rightarrow> string set \<Rightarrow> string list \<Rightarrow> string list" where
  "collectCommon ex [] processedBaseNames commonBaseNames = commonBaseNames"
| "collectCommon ex (f # files) processedBaseNames commonBaseNames =
     (let baseName = getBaseName (name_f f) in
      if baseName \<in> processedBaseNames
      then collectCommon ex files processedBaseNames commonBaseNames
      else collectCommon ex files (insert baseName processedBaseNames)
             (if ex baseName then commonBaseNames @ [baseName] else commonBaseNames))"

text \<open>
  \<^verbatim>\<open>matches\<close>. With an empty model list the length test lets the computation through
  and \<^verbatim>\<open>models[0].id\<close> throws a TypeError.
\<close>

definition matches :: "ModelConfig list \<Rightarrow> ModelFiles \<Rightarrow> error + string list" where
  "matches models modelFiles =
     (let uploadedModelIds = map fst modelFiles in
      if length uploadedModelIds < length models then Inr []
      else (case models of
              [] \<Rightarrow> Inl (TypeError ''Cannot read properties of undefined (reading id)'')
            | m0 # _ \<Rightarrow>
                (let firstModelFiles =
                       (case map_of modelFiles (id_mc m0) of None \<Rightarrow> [] | Some fs \<Rightarrow> fs);
                     commonBaseNames =
                       collectCommon (existsInAll models modelFiles (id_mc m0)) firstModelFiles {} []
                 in Inr (sort commonBaseNames))))"

text \<open>\<^verbatim>\<open>isReady\<close>, computed from \<^verbatim>\<open>matches\<close> in the same render.\<close>

definition isReady :: "ModelConfig list \<Rightarrow> ModelFiles \<Rightarrow> error + bool" where
  "isReady models modelFiles =
     (case matches models modelFiles of
        Inl e \<Rightarrow> Inl e
      | Inr ms \<Rightarrow> Inr (length ms > 0 \<and> length (map fst modelFiles) = length models))"

text \<open>\<^verbatim>\<open>Array.prototype.map\<close> with a callback that may throw: the first error ends it.\<close>

fun sequence :: "(error + 'a) list \<Rightarrow> error + 'a list" where
  "sequence [] = Inr []"
| "sequence (x # xs) =
     (case x of
        Inl e \<Rightarrow> Inl e
      | Inr v \<Rightarrow> (case sequence xs of Inl e \<Rightarrow> Inl e | Inr vs \<Rightarrow> Inr (v # vs)))"

text \<open>
  The inner callback of \<^verbatim>\<open>handleStart\<close>: \<^verbatim>\<open>modelFiles[m.id].find(...)\<close> throws a
  TypeError when the model has no entry.
\<close>

definition mkSource :: "ModelFiles \<Rightarrow> string \<Rightarrow> ModelConfig \<Rightarrow> error + VideoSource" where
  "mkSource modelFiles baseName m =
     (case map_of modelFiles (id_mc m) of
        None \<Rightarrow> Inl (TypeError ''Cannot read properties of undefined (reading find)'')
      | Some fs \<Rightarrow>
          (let file = find (\<lambda>f. getBaseName (name_f f) = baseName) fs in
           Inr \<lparr> modelId_vs = id_mc m, file_vs = file, url_vs = None,
                 name_vs = (case file of Some f \<Rightarrow> name_f f | None \<Rightarrow> baseName) \<rparr>))"

text \<open>The outer callback of \<^verbatim>\<open>handleStart\<close>, for a base name and its index.\<close>

definition mkCase :: "ModelConfig list \<Rightarrow> ModelFiles \<Rightarrow> string \<times> nat \<Rightarrow> error + TestCase" where
  "mkCase models modelFiles p =
     (case sequence (map (mkSource modelFiles (fst p)) models) of
        Inl e \<Rightarrow> Inl e
      | Inr srcs \<Rightarrow> Inr \<lparr> id_tc = ''case-'' @ show_nat (snd p), name_tc = fst p, sources_tc = srcs \<rparr>)"

text \<open>The result is the queue passed to \<^verbatim>\<open>onStartEvaluation\<close>, if it is called.\<close>

definition handleStart :: "ModelConfig list \<Rightarrow> ModelFiles \<Rightarrow> error + TestCase list option" where
  "handleStart models modelFiles =
     (case matches models modelFiles of
        Inl e \<Rightarrow> Inl e
      | Inr ms \<Rightarrow>
          if length ms = 0 then Inr None
          else (case sequence (map (mkCase models modelFiles) (zip ms [0 ..< length ms])) of
                  Inl e \<Rightarrow> Inl e
                | Inr queue \<Rightarrow> Inr (Some queue)))"

text \<open>
  What the user can do on the upload screen: choose a folder on, or remove the files of,
  the card of the \<open>i\<close>-th configured model. The table starts empty.
\<close>

datatype UploadEvent = FolderSelect nat "File list option" | RemoveFiles nat

fun upload_step :: "ModelConfig list \<Rightarrow> MediaType \<Rightarrow> ModelFiles \<Rightarrow> UploadEvent \<Rightarrow> ModelFiles" where
  "upload_step models mediaType mf (FolderSelect i files) =
     (if i < length models then handleFolderSelect mediaType (id_mc (models ! i)) files mf else mf)"
| "upload_step models mediaType mf (RemoveFiles i) =
     (if i < length models then removeFiles (id_mc (models ! i)) mf else mf)"

definition upload_run :: "ModelConfig list \<Rightarrow> MediaType \<Rightarrow> UploadEvent list \<Rightarrow> ModelFiles" where
  "upload_run models mediaType evs = foldl (upload_step models mediaType) [] evs"

text \<open>Notions used to state the matcher's properties.\<close>

definition filesOf :: "ModelFiles \<Rightarrow> ModelConfig \<Rightarrow> File list" where
  "filesOf modelFiles m = (case map_of modelFiles (id_mc m) of None \<Rightarrow> [] | Some fs \<Rightarrow> fs)"

definition baseNamesOf :: "ModelFiles \<Rightarrow> ModelConfig \<Rightarrow> string set" where
  "baseNamesOf modelFiles m = (\<lambda>f. getBaseName (name_f f)) ` set (filesOf modelFiles m)"

definition hasList :: "ModelFiles \<Rightarrow> ModelConfig \<Rightarrow> bool" where
  "hasList modelFiles m = (id_mc m \<in> fst ` set modelFiles)"

definition theSource :: "ModelFiles \<Rightarrow> string \<Rightarrow> ModelConfig \<Rightarrow> VideoSource" where
  "theSource mf b m =
     (let file = find (\<lambda>f. getBaseName (name_f f) = b) (filesOf mf m) in
      \<lparr> modelId_vs = id_mc m, file_vs = file, url_vs = None,
        name_vs = (case file of Some f \<Rightarrow> name_f f | None \<Rightarrow> b) \<rparr>)"

definition theCase :: "ModelConfig list \<Rightarrow> ModelFiles \<Rightarrow> string \<times> nat \<Rightarrow> TestCase" where
  "theCase models mf p =
     \<lparr> id_tc = ''case-'' @ show_nat (snd p), name_tc = fst p,
       sources_tc = map (theSource mf (fst p)) models \<rparr>"

definition keys_ok :: "ModelConfig list \<Rightarrow> ModelFiles \<Rightarrow> bool" where
  "keys_ok models mf = (fst ` set mf \<subseteq> id_mc ` set models \<and> distinct (map fst mf))"

text \<open>Example inputs: the scenario with variants A and B of the specification.\<close>

definition ex_models :: "ModelConfig list" where
  "ex_models =
     [ \<lparr> id_mc = ''m1'', name_mc = ''Baseline (v1.0)'', color_mc = ''#6366f1'' \<rparr>,
       \<lparr> id_mc = ''m2'', name_mc = ''Experimental (v1.1)'', color_mc = ''#ec4899'' \<rparr> ]"

definition ex_files :: ModelFiles where
  "ex_files =
     [ (''m1'', [ \<lparr> name_f = ''x.mp4'', type_f = ''video/mp4'' \<rparr> ]),
       (''m2'', [ \<lparr> name_f = ''x.mov'', type_f = ''video/quicktime'' \<rparr>,
                 \<lparr> name_f = ''y.mp4'', type_f = ''video/mp4'' \<rparr> ]) ]"

definition ex_events :: "UploadEvent list" where
  "ex_events =
     [ FolderSelect 0 (Some [ \<lparr> name_f = ''x.mp4'', type_f = ''video/mp4'' \<rparr>,
                              \<lparr> name_f = ''notes.txt'', type_f = ''text/plain'' \<rparr> ]),
       FolderSelect 1 (Some [ \<lparr> name_f = ''x.mov'', type_f = ''video/quicktime'' \<rparr>,
                              \<lparr> name_f = ''y.mp4'', type_f = ''video/mp4'' \<rparr> ]) ]"

text \<open>
  Example inputs: two models added to the initial two at the same value 5 of
  \<^verbatim>\<open>Date.now()\<close>, which gives both the id \<^verbatim>\<open>m5\<close>, and a folder chosen on each of
  the four cards.
\<close>

definition dup_models :: "ModelConfig list" where
  "dup_models = models_s (setup_run [AddModel 5, AddModel 5])"

definition dup_events :: "UploadEvent list" where
  "dup_events =
     [ FolderSelect 0 (Some [ \<lparr> name_f = ''x.mp4'', type_f = ''video/mp4'' \<rparr> ]),
       FolderSelect 1 (Some [ \<lparr> name_f = ''x.mov'', type_f = ''video/quicktime'' \<rparr> ]),
       FolderSelect 2 (Some [ \<lparr> name_f = ''x.webm'', type_f = ''video/webm'' \<rparr> ]),
       FolderSelect 3 (Some [ \<lparr> name_f = ''x.mkv'', type_f = ''video/x-matroska'' \<rparr> ]) ]"

definition dup_files :: ModelFiles where
  "dup_files = upload_run dup_models video dup_events"

section \<open>videoStitcher: the composite renderer\<close>

text \<open>
  What the browser contributes to one call of \<^verbatim>\<open>stitchMedia\<close>: whether each source
  decodes (and to which natural size), whether \<^verbatim>\<open>getContext('2d')\<close> yields a context,
  whether the PNG encoder delivers a blob, which recorder types are supported, and, for
  every animation frame \<open>k\<close> and video index \<open>j\<close>, whether that video has ended.
\<close>

datatype LoadResult = Loaded nat nat | Failed | Stalled

record Browser =
  decode :: "VideoSource \<Rightarrow> LoadResult"
  context2d :: bool
  encodePng :: bool
  isTypeSupported :: "string \<Rightarrow> bool"
  ended :: "nat \<Rightarrow> nat \<Rightarrow> bool"

text \<open>Object URLs: the counter of issued URLs and the set of URLs not yet revoked.\<close>

record URLStore =
  issued :: nat
  live :: "string set"

definition createObjectURL :: "URLStore \<Rightarrow> string \<times> URLStore" where
  "createObjectURL st =
     (let u = ''blob:'' @ show_nat (issued st)
      in (u, \<lparr> issued = Suc (issued st), live = insert u (live st) \<rparr>))"

definition revokeObjectURL :: "string \<Rightarrow> URLStore \<Rightarrow> URLStore" where
  "revokeObjectURL u st = st \<lparr> live := live st - {u} \<rparr>"

text \<open>
  The \<^verbatim>\<open>sources.map\<close> that creates the elements: it runs to its end before any load
  event, and gives each element the \<^verbatim>\<open>src\<close>
  \<^verbatim>\<open>src.file ? URL.createObjectURL(src.file) : (src.url || '')\<close>.
\<close>

fun assignSrc :: "VideoSource list \<Rightarrow> URLStore \<Rightarrow> string list \<times> URLStore" where
  "assignSrc [] st = ([], st)"
| "assignSrc (s # ss) st =
     (case file_vs s of
        Some f \<Rightarrow>
          (let (u, st1) = createObjectURL st; (us, st2) = assignSrc ss st1 in (u # us, st2))
      | None \<Rightarrow>
          (let (us, st1) = assignSrc ss st
           in ((case url_vs s of Some u \<Rightarrow> u | None \<Rightarrow> []) # us, st1)))"

text \<open>An element with an empty \<^verbatim>\<open>src\<close> fires its error event.\<close>

definition loadElement :: "Browser \<Rightarrow> VideoSource \<Rightarrow> string \<Rightarrow> LoadResult" where
  "loadElement env s u = (if u = [] then Failed else decode env s)"

text \<open>A loaded image or video element: its \<^verbatim>\<open>src\<close> and its natural size.\<close>

record Element =
  src_el :: string
  width_el :: nat
  height_el :: nat

datatype 'a Settled = Fulfilled 'a | RejectedWith error | Unsettled

fun toElement :: "string \<times> LoadResult \<Rightarrow> Element" where
  "toElement (u, Loaded w h) = \<lparr> src_el = u, width_el = w, height_el = h \<rparr>"
| "toElement (u, _) = \<lparr> src_el = u, width_el = 0, height_el = 0 \<rparr>"

text \<open>
  \<^verbatim>\<open>await Promise.all(loadPromises)\<close>: rejected as soon as one element fails (the
  message names a failed source; the first in list order is taken), unsettled while none
  failed and one never fires an event, fulfilled with all elements otherwise.
\<close>

definition promiseAll ::
  "string \<Rightarrow> VideoSource list \<Rightarrow> string list \<Rightarrow> LoadResult list \<Rightarrow> Element list Settled" where
  "promiseAll msg sources urls results =
     (case find (\<lambda>(s, r). r = Failed) (zip sources results) of
        Some (s, r) \<Rightarrow> RejectedWith (Error (msg @ name_vs s))
      | None \<Rightarrow>
          if list_ex (\<lambda>r. r = Stalled) results then Unsettled
          else Fulfilled (map toElement (zip urls results)))"

text \<open>The canvas: its size and the drawing calls made on its context, in order.\<close>

datatype DrawOp =
    FillRect string nat nat nat nat
  | DrawImage nat nat nat
  | FillText string nat nat

record Canvas =
  width_c :: nat
  height_c :: nat
  ops :: "DrawOp list"

text \<open>
  The artifact: the PNG encoding of a canvas, or a recording with its MIME type, the size
  of the canvas and the number of frames drawn; and how the promise of
  \<^verbatim>\<open>stitchMedia\<close> ends (\<open>Pending\<close>: it never settles).
\<close>

datatype Blob = PngBlob Canvas | VideoBlob string nat nat nat

record Artifact =
  blob :: Blob
  extension :: string

datatype Outcome = Resolved Artifact | Rejected error | Pending

text \<open>\<^verbatim>\<open>models.find(m => m.id === modelId)?.name || 'Unknown'\<close>\<close>

definition modelName :: "ModelConfig list \<Rightarrow> string \<Rightarrow> string" where
  "modelName models mid =
     (case find (\<lambda>m. id_mc m = mid) models of
        None \<Rightarrow> ''Unknown''
      | Some m \<Rightarrow> if name_mc m = [] then ''Unknown'' else name_mc m)"

text \<open>The \<^verbatim>\<open>forEach\<close> that draws every tile and its label, advancing \<^verbatim>\<open>currentX\<close>.\<close>

fun drawTiles ::
  "ModelConfig list \<Rightarrow> VideoSource list \<Rightarrow> Element list \<Rightarrow> nat \<Rightarrow> nat \<Rightarrow> DrawOp list" where
  "drawTiles models sources [] index currentX = []"
| "drawTiles models sources (el # els) index currentX =
     [ DrawImage index currentX 0,
       FillRect ''rgba(0, 0, 0, 0.6)'' (currentX + 10) 10 200 30,
       FillText (modelName models (modelId_vs (sources ! index))) (currentX + 20) 32 ]
     @ drawTiles models sources els (Suc index) (currentX + width_el el)"

text \<open>\<^verbatim>\<open>Math.max(...heights) || 720\<close> on natural numbers.\<close>

definition maxHeight :: "Element list \<Rightarrow> nat" where
  "maxHeight els = (let m = foldr max (map height_el els) 0 in if m = 0 then 720 else m)"

definition totalWidth :: "Element list \<Rightarrow> nat" where
  "totalWidth els = foldl (\<lambda>acc el. acc + width_el el) 0 els"

text \<open>The cleanup loop of both modes: revoke the \<^verbatim>\<open>src\<close> of every element that starts with \<^verbatim>\<open>blob:\<close>.\<close>

fun revokeAll :: "Element list \<Rightarrow> URLStore \<Rightarrow> URLStore" where
  "revokeAll [] st = st"
| "revokeAll (el # els) st =
     revokeAll els (if startsWith (src_el el) ''blob:'' then revokeObjectURL (src_el el) st else st)"

text \<open>
  \<^verbatim>\<open>canvas.toBlob\<close> hands the callback \<^verbatim>\<open>null\<close> when the canvas has no pixels or the
  encoder fails.
\<close>

definition toBlob :: "Browser \<Rightarrow> Canvas \<Rightarrow> Blob option" where
  "toBlob env canvas =
     (if width_c canvas = 0 \<or> height_c canvas = 0 \<or> \<not> encodePng env then None
      else Some (PngBlob canvas))"

text \<open>
  The image mode of \<^verbatim>\<open>stitchMedia\<close>. Every \<^verbatim>\<open>throw\<close> and every rejected
  \<^verbatim>\<open>await\<close> inside the \<^verbatim>\<open>try\<close> block ends in \<^verbatim>\<open>reject(err)\<close>.
\<close>

definition stitchImage ::
  "Browser \<Rightarrow> URLStore \<Rightarrow> VideoSource list \<Rightarrow> ModelConfig list \<Rightarrow> Outcome \<times> URLStore" where
  "stitchImage env st sources models =
     (let (urls, st1) = assignSrc sources st in
      case promiseAll ''Failed to load image: '' sources urls
             (map (\<lambda>(s, u). loadElement env s u) (zip sources urls)) of
        RejectedWith e \<Rightarrow> (Rejected e, st1)
      | Unsettled \<Rightarrow> (Pending, st1)
      | Fulfilled images \<Rightarrow>
          (let canvas0 = \<lparr> width_c = totalWidth images, height_c = maxHeight images, ops = [] \<rparr> in
           if \<not> context2d env then (Rejected (Error ''Canvas context failed''), st1)
           else
             (let canvas = canvas0 \<lparr> ops :=
                    FillRect ''#000'' 0 0 (width_c canvas0) (height_c canvas0)
                      # drawTiles models sources images 0 0 \<rparr>
              in case toBlob env canvas of
                   Some b \<Rightarrow> (Resolved \<lparr> blob = b, extension = ''png'' \<rparr>, revokeAll images st1)
                 | None \<Rightarrow> (Rejected (Error ''Failed to create image blob''), st1))))"

text \<open>The recorder types in the order of preference, and \<^verbatim>\<open>String.prototype.includes\<close>.\<close>

definition mimeTypes :: "string list" where
  "mimeTypes =
     [ ''video/mp4'', ''video/mp4;codecs=avc1'', ''video/mp4;codecs=h264'',
       ''video/webm;codecs=h264'', ''video/webm;codecs=vp9'', ''video/webm'' ]"

definition includes_str :: "string \<Rightarrow> string \<Rightarrow> bool" where
  "includes_str s sub = list_ex (\<lambda>i. take (length sub) (drop i s) = sub) [0 ..< Suc (length s)]"

text \<open>The first supported type, or \<^verbatim>\<open>video/webm\<close> when none is.\<close>

definition selectMimeType :: "Browser \<Rightarrow> string" where
  "selectMimeType env =
     (case find (isTypeSupported env) mimeTypes of Some t \<Rightarrow> t | None \<Rightarrow> ''video/webm'')"

datatype RecorderState = inactive | recording

datatype FrameEnd = StoppedAt nat | Abandoned nat

text \<open>
  One call of \<^verbatim>\<open>drawFrame\<close> at animation frame \<open>k\<close> with \<open>n\<close> videos: after drawing,
  a recorder that is recording is stopped when every video has ended, and otherwise the
  next frame is requested; a recorder that is not recording ends the loop without
  stopping anything.
\<close>

datatype FrameStep = Stop | Again | Idle

definition drawFrame :: "Browser \<Rightarrow> nat \<Rightarrow> RecorderState \<Rightarrow> nat \<Rightarrow> FrameStep" where
  "drawFrame env n rs k =
     (if rs = recording then
        (if list_all (ended env k) [0 ..< n] then Stop else Again)
      else Idle)"

text \<open>
  The frames the browser runs: \<open>None\<close> is a loop that requests a next frame for ever.
\<close>

partial_function (option) frameLoop :: "Browser \<Rightarrow> nat \<Rightarrow> RecorderState \<Rightarrow> nat \<Rightarrow> FrameEnd option" where
  "frameLoop env n rs k =
     (case drawFrame env n rs k of
        Stop \<Rightarrow> Some (StoppedAt k)
      | Again \<Rightarrow> frameLoop env n rs (Suc k)
      | Idle \<Rightarrow> Some (Abandoned k))"

declare frameLoop.simps [code]

text \<open>
  The video mode of \<^verbatim>\<open>stitchMedia\<close>. The constructor of \<^verbatim>\<open>MediaRecorder\<close> throws
  for a type that is not supported; the recorder is recording from \<^verbatim>\<open>recorder.start()\<close>
  on; \<^verbatim>\<open>recorder.onstop\<close> builds the blob, revokes the URLs and resolves.
\<close>

definition stitchVideo ::
  "Browser \<Rightarrow> URLStore \<Rightarrow> VideoSource list \<Rightarrow> ModelConfig list \<Rightarrow> Outcome \<times> URLStore" where
  "stitchVideo env st sources models =
     (let (urls, st1) = assignSrc sources st in
      case promiseAll ''Failed to load video: '' sources urls
             (map (\<lambda>(s, u). loadElement env s u) (zip sources urls)) of
        RejectedWith e \<Rightarrow> (Rejected e, st1)
      | Unsettled \<Rightarrow> (Pending, st1)
      | Fulfilled videos \<Rightarrow>
          if \<not> context2d env then (Rejected (Error ''Could not get canvas context''), st1)
          else
            (let selectedMimeType = selectMimeType env;
                 ext = (if includes_str selectedMimeType ''mp4'' then ''mp4'' else ''webm'')
             in if \<not> isTypeSupported env selectedMimeType
                then (Rejected (Error ''NotSupportedError: MediaRecorder''), st1)
                else
                  (case frameLoop env (length videos) recording 0 of
                     Some (StoppedAt k) \<Rightarrow>
                       (Resolved \<lparr> blob = VideoBlob selectedMimeType (totalWidth videos)
                                          (maxHeight videos) (Suc k),
                                   extension = ext \<rparr>,
                        revokeAll videos st1)
                   | Some (Abandoned k) \<Rightarrow> (Pending, st1)
                   | None \<Rightarrow> (Pending, st1))))"

text \<open>\<^verbatim>\<open>stitchMedia\<close>, from a URL store to the outcome of its promise and the store left behind.\<close>

definition stitchMedia ::
  "Browser \<Rightarrow> URLStore \<Rightarrow> VideoSource list \<Rightarrow> ModelConfig list \<Rightarrow> MediaType
     \<Rightarrow> Outcome \<times> URLStore" where
  "stitchMedia env st sources models mediaType =
     (if length sources = 0 then (Rejected (Error ''No sources provided''), st)
      else if mediaType = image then stitchImage env st sources models
      else stitchVideo env st sources models)"

text \<open>Notions used to state the renderer's properties.\<close>

definition emptySrc :: "VideoSource \<Rightarrow> bool" where
  "emptySrc s = (file_vs s = None \<and> (url_vs s = None \<or> url_vs s = Some []))"

definition loadOf :: "Browser \<Rightarrow> VideoSource \<Rightarrow> LoadResult" where
  "loadOf env s = (if emptySrc s then Failed else decode env s)"

definition sourceFails :: "Browser \<Rightarrow> VideoSource \<Rightarrow> bool" where
  "sourceFails env s = (loadOf env s = Failed)"

definition sourceLoads :: "Browser \<Rightarrow> VideoSource \<Rightarrow> bool" where
  "sourceLoads env s = (\<exists>w h. loadOf env s = Loaded w h)"

definition naturalWidth :: "Browser \<Rightarrow> VideoSource \<Rightarrow> nat" where
  "naturalWidth env s = (case loadOf env s of Loaded w h \<Rightarrow> w | _ \<Rightarrow> 0)"

definition naturalHeight :: "Browser \<Rightarrow> VideoSource \<Rightarrow> nat" where
  "naturalHeight env s = (case loadOf env s of Loaded w h \<Rightarrow> h | _ \<Rightarrow> 0)"

definition allEnded :: "Browser \<Rightarrow> nat \<Rightarrow> nat \<Rightarrow> bool" where
  "allEnded env n k = (\<forall>j < n. ended env k j)"

text \<open>Example inputs: a browser, an empty URL store and sources backed by local files.\<close>

definition ex_env :: Browser where
  "ex_env =
     \<lparr> decode = (\<lambda>s. if name_vs s = ''a.png'' then Loaded 100 50
                      else if name_vs s = ''b.png'' then Loaded 200 50
                      else if name_vs s = ''flat.svg'' then Loaded 100 0
                      else Failed),
       context2d = True, encodePng = True,
       isTypeSupported = (\<lambda>t. t = ''video/webm''),
       ended = (\<lambda>k j. 2 + j \<le> k) \<rparr>"

definition ex_store :: URLStore where
  "ex_store = \<lparr> issued = 0, live = {} \<rparr>"

definition ex_source :: "string \<Rightarrow> string \<Rightarrow> VideoSource" where
  "ex_source mid n =
     \<lparr> modelId_vs = mid, file_vs = Some \<lparr> name_f = n, type_f = [] \<rparr>, url_vs = None, name_vs = n \<rparr>"

definition canvasOf :: "Outcome \<Rightarrow> Canvas option" where
  "canvasOf out =
     (case out of
        Resolved art \<Rightarrow> (case blob art of PngBlob c \<Rightarrow> Some c | VideoBlob t w h n \<Rightarrow> None)
      | Rejected e \<Rightarrow> None
      | Pending \<Rightarrow> None)"

section \<open>App: batch export of the representative cases\<close>

datatype Score = Score_0 | Score_half | Score_1

record VideoRating =
  score :: Score
  isAmazing :: bool
  note_vr :: "string option"

record VoteResult =
  caseId :: string
  caseName :: string
  timestamp :: nat
  winnerModelId :: string
  ratings :: "(string \<times> VideoRating) list"
  isRepresentative :: bool

text \<open>
  What \<^verbatim>\<open>handleBatchExportZip\<close> does to the outside, in order: the state setters, the
  awaited call of \<^verbatim>\<open>stitchMedia\<close> for a named case with the way its promise settled,
  the entries put into the archive in memory, \<^verbatim>\<open>zip.generateAsync\<close> with its success,
  the download of the archive offered to the user, and the two reports of the
  \<^verbatim>\<open>catch\<close> block.
\<close>

datatype Effect =
    SetIsProcessingZip bool
  | SetZipProgress string
  | StitchCall string Outcome
  | ZipFile string Blob
  | GenerateAsync bool
  | Download string "(string \<times> Blob) list"
  | ConsoleError
  | Alert string

definition progressMsg :: "nat \<Rightarrow> nat \<Rightarrow> string \<Rightarrow> string" where
  "progressMsg i count name = ''Processing '' @ show_nat i @ ''/'' @ show_nat count @ '': '' @ name"

text \<open>The \<^verbatim>\<open>catch\<close> block followed by the \<^verbatim>\<open>finally\<close> block, and the latter alone.\<close>

definition finallyBlock :: "Effect list" where
  "finallyBlock = [SetIsProcessingZip False, SetZipProgress []]"

definition catchBlock :: "Effect list" where
  "catchBlock = [ConsoleError, Alert ''Failed to create batch export. Please try again.''] @ finallyBlock"

text \<open>
  The statements after the \<^verbatim>\<open>for\<close> loop; \<open>zipOk\<close> tells whether
  \<^verbatim>\<open>zip.generateAsync\<close> fulfils.
\<close>

definition finishArchive ::
  "bool \<Rightarrow> MediaType \<Rightarrow> (string \<times> Blob) list \<Rightarrow> URLStore \<Rightarrow> Effect list \<times> URLStore" where
  "finishArchive zipOk mediaType archive st =
     (if zipOk then
        (let (u, st1) = createObjectURL st
         in ([ SetZipProgress ''Compressing archive...'', GenerateAsync True,
               Download (''Typical_Cases_'' @ (if mediaType = video then ''Videos'' else ''Images'') @ ''.zip'') archive ]
             @ finallyBlock,
             revokeObjectURL u st1))
      else ([SetZipProgress ''Compressing archive...'', GenerateAsync False] @ catchBlock, st))"

text \<open>
  The \<^verbatim>\<open>for\<close> loop from index \<open>i\<close> on, with the archive built so far. An awaited
  promise that never settles leaves the function suspended for ever: the trace ends there.
\<close>

fun exportLoop ::
  "Browser \<Rightarrow> bool \<Rightarrow> ModelConfig list \<Rightarrow> MediaType \<Rightarrow> TestCase list \<Rightarrow> nat
     \<Rightarrow> VoteResult list \<Rightarrow> nat \<Rightarrow> (string \<times> Blob) list \<Rightarrow> URLStore \<Rightarrow> Effect list \<times> URLStore" where
  "exportLoop env zipOk models mediaType caseQueue count [] i archive st =
     finishArchive zipOk mediaType archive st"
| "exportLoop env zipOk models mediaType caseQueue count (result # rest) i archive st =
     (case find (\<lambda>c. id_tc c = caseId result) caseQueue of
        None \<Rightarrow> exportLoop env zipOk models mediaType caseQueue count rest (Suc i) archive st
      | Some testCase \<Rightarrow>
          (case stitchMedia env st (sources_tc testCase) models mediaType of
             (Resolved art, st1) \<Rightarrow>
               (let entry = (getBaseName (name_tc testCase) @ ''_comparison.'' @ extension art, blob art);
                    (tr, st2) = exportLoop env zipOk models mediaType caseQueue count rest (Suc i)
                                  (archive @ [entry]) st1
                in ([ SetZipProgress (progressMsg (Suc i) count (name_tc testCase)),
                      StitchCall (name_tc testCase) (Resolved art),
                      ZipFile (fst entry) (snd entry) ] @ tr, st2))
           | (Rejected e, st1) \<Rightarrow>
               ([ SetZipProgress (progressMsg (Suc i) count (name_tc testCase)),
                  StitchCall (name_tc testCase) (Rejected e) ] @ catchBlock, st1)
           | (Pending, st1) \<Rightarrow>
               ([ SetZipProgress (progressMsg (Suc i) count (name_tc testCase)),
                  StitchCall (name_tc testCase) Pending ], st1)))"

definition handleBatchExportZip ::
  "Browser \<Rightarrow> bool \<Rightarrow> ModelConfig list \<Rightarrow> MediaType \<Rightarrow> TestCase list \<Rightarrow> VoteResult list
     \<Rightarrow> URLStore \<Rightarrow> Effect list \<times> URLStore" where
  "handleBatchExportZip env zipOk models mediaType caseQueue voteHistory st =
     (let repCases = filter isRepresentative voteHistory in
      if length repCases = 0 then ([], st)
      else
        (let (tr, st1) = exportLoop env zipOk models mediaType caseQueue (length repCases)
                            repCases 0 [] st
         in (SetIsProcessingZip True # tr, st1)))"

text \<open>Notions used to state the exporter's properties.\<close>

definition inQueue :: "TestCase list \<Rightarrow> VoteResult \<Rightarrow> bool" where
  "inQueue caseQueue r = (find (\<lambda>c. id_tc c = caseId r) caseQueue \<noteq> None)"

fun isAlert :: "Effect \<Rightarrow> bool" where
  "isAlert (Alert m) = True"
| "isAlert _ = False"

fun isDelivery :: "Effect \<Rightarrow> bool" where
  "isDelivery (Download f archive) = True"
| "isDelivery (GenerateAsync ok) = True"
| "isDelivery _ = False"

fun isStitch :: "Effect \<Rightarrow> bool" where
  "isStitch (StitchCall n out) = True"
| "isStitch _ = False"

fun isRejection :: "Effect \<Rightarrow> bool" where
  "isRejection (StitchCall n (Rejected e)) = True"
| "isRejection _ = False"

text \<open>Example input: three marked cases, the second of which has an undecodable source.\<close>

definition ex_case :: "string \<Rightarrow> string \<Rightarrow> string \<Rightarrow> TestCase" where
  "ex_case cid n f =
     \<lparr> id_tc = cid, name_tc = n,
       sources_tc = [ex_source ''m1'' ''a.png'', ex_source ''m2'' f] \<rparr>"

definition ex_queue :: "TestCase list" where
  "ex_queue =
     [ex_case ''case-0'' ''x'' ''b.png'', ex_case ''case-1'' ''y'' ''c.png'', ex_case ''case-2'' ''z'' ''b.png'']"

definition ex_vote :: "string \<Rightarrow> string \<Rightarrow> VoteResult" where
  "ex_vote cid n =
     \<lparr> caseId = cid, caseName = n, timestamp = 0, winnerModelId = ''TIE'', ratings = [],
       isRepresentative = True \<rparr>"

definition ex_history :: "VoteResult list" where
  "ex_history = [ex_vote ''case-0'' ''x'', ex_vote ''case-1'' ''y'', ex_vote ''case-2'' ''z'']"

section \<open>ComparisonArena: the transport\<close>

text \<open>
  A mounted \<^verbatim>\<open>video\<close> element, as far as the transport writes to it. Times are real
  numbers. The field \<open>currentTime_v\<close> holds the value last assigned to
  \<^verbatim>\<open>video.currentTime\<close>, which is what the getter returns right after the assignment.
\<close>

record VideoElement =
  currentTime_v :: real
  playbackRate_v :: real
  paused_v :: bool
  duration_v :: real

record ArenaState =
  isPlaying :: bool
  currentTime :: real
  duration :: real
  playbackRate :: real
  videoRefs :: "VideoElement option list"

text \<open>The reset of the playback state on a new case, for a given list of element slots.\<close>

definition Arena_init :: "real \<Rightarrow> VideoElement option list \<Rightarrow> ArenaState" where
  "Arena_init rate refs =
     \<lparr> isPlaying = False, currentTime = 0, duration = 0, playbackRate = rate, videoRefs = refs \<rparr>"

text \<open>
  \<^verbatim>\<open>handleSeek\<close>; \<open>time\<close> is \<^verbatim>\<open>parseFloat(e.target.value)\<close>, the position of the
  range input.
\<close>

definition handleSeek :: "MediaType \<Rightarrow> real \<Rightarrow> ArenaState \<Rightarrow> ArenaState" where
  "handleSeek mediaType time s =
     (if mediaType \<noteq> video then s
      else s \<lparr> currentTime := time,
               videoRefs := map (map_option (\<lambda>v. v \<lparr> currentTime_v := time \<rparr>)) (videoRefs s) \<rparr>)"

text \<open>
  \<^verbatim>\<open>handleTimeUpdate\<close>: the first element that is not \<^verbatim>\<open>null\<close> drives the reported
  time, and the duration once while the state still holds 0.
\<close>

definition handleTimeUpdate :: "MediaType \<Rightarrow> ArenaState \<Rightarrow> ArenaState" where
  "handleTimeUpdate mediaType s =
     (if mediaType \<noteq> video then s
      else (case find (\<lambda>v. v \<noteq> None) (videoRefs s) of
              Some (Some activeRef) \<Rightarrow>
                (let s1 = s \<lparr> currentTime := currentTime_v activeRef \<rparr>
                 in if duration s = 0 \<and> duration_v activeRef \<noteq> 0
                    then s1 \<lparr> duration := duration_v activeRef \<rparr> else s1)
            | _ \<Rightarrow> s))"

text \<open>The upper end of the range input, \<^verbatim>\<open>max={duration || 100}\<close>; its lower end is 0.\<close>

definition sliderMax :: "ArenaState \<Rightarrow> real" where
  "sliderMax s = (if duration s = 0 then 100 else duration s)"

text \<open>The clamping the specification speaks of.\<close>

definition clamp :: "real \<Rightarrow> real \<Rightarrow> real \<Rightarrow> real" where
  "clamp t lo hi = max lo (min hi t)"

text \<open>Example: a fresh case with two mounted videos of 10 and 12 seconds.\<close>

definition ex_arena :: ArenaState where
  "ex_arena =
     Arena_init 1
       [ Some \<lparr> currentTime_v = 0, playbackRate_v = 1, paused_v = True, duration_v = 10 \<rparr>,
         Some \<lparr> currentTime_v = 0, playbackRate_v = 1, paused_v = True, duration_v = 12 \<rparr> ]"

section \<open>ComparisonArena: the order of presentation in blind mode\<close>

text \<open>
  The order is \<^verbatim>\<open>[...models].sort(() => Math.random() - 0.5)\<close>. The comparator ignores
  its arguments; the sort only looks at the sign of what it returns.
\<close>

datatype Sign = Negative | Zero | Positive

definition signOf :: "real \<Rightarrow> Sign" where
  "signOf x = (if x < 0 then Negative else if x = 0 then Zero else Positive)"

text \<open>The comparator, for the value \<open>r\<close> that \<^verbatim>\<open>Math.random()\<close> returns.\<close>

definition randomComparator :: "real \<Rightarrow> real" where
  "randomComparator r = r - 1 / 2"

text \<open>
  \<^verbatim>\<open>Array.prototype.sort\<close> belongs to the engine, not to the repository. Whatever
  algorithm it is, on a given array it calls the comparator, branches on the sign of the
  answer, and after finitely many calls delivers an order: a decision tree. The tree is a
  parameter of the model.
\<close>

datatype 'a Sorter = Done "'a list" | Compare "'a Sorter" "'a Sorter" "'a Sorter"

text \<open>The order delivered for a given sequence of values of \<^verbatim>\<open>Math.random()\<close>.\<close>

fun runSort :: "'a Sorter \<Rightarrow> real list \<Rightarrow> 'a list option" where
  "runSort (Done order) rs = Some order"
| "runSort (Compare neg zero pos) [] = None"
| "runSort (Compare neg zero pos) (r # rs) =
     (case signOf (randomComparator r) of
        Negative \<Rightarrow> runSort neg rs
      | Zero \<Rightarrow> runSort zero rs
      | Positive \<Rightarrow> runSort pos rs)"

text \<open>The randomisation step of the effect that runs on every case transition.\<close>

definition displayModels ::
  "bool \<Rightarrow> (ModelConfig list \<Rightarrow> ModelConfig Sorter) \<Rightarrow> ModelConfig list \<Rightarrow> real list
     \<Rightarrow> ModelConfig list option" where
  "displayModels isBlind engineSort models_prop rs =
     (if isBlind then runSort (engineSort models_prop) rs else Some models_prop)"

text \<open>
  \<^verbatim>\<open>Math.random()\<close> is taken to return each of the \<open>2 ^ Suc b\<close> binary fractions
  \<open>k / 2 ^ Suc b\<close> of \<open>[0, 1)\<close> with the same probability (\<open>Suc b\<close> random bits, as
  engines produce them). The probability of a sign of the comparator is the share of those
  values that give it.
\<close>

definition draw :: "nat \<Rightarrow> nat \<Rightarrow> real" where
  "draw b k = real k / 2 ^ Suc b"

definition pSign :: "nat \<Rightarrow> Sign \<Rightarrow> real" where
  "pSign b s =
     real (length (filter (\<lambda>k. signOf (randomComparator (draw b k)) = s) [0 ..< 2 ^ Suc b]))
       / 2 ^ Suc b"

text \<open>The probability that the delivered order satisfies \<open>E\<close>, the calls being independent.\<close>

fun prob :: "nat \<Rightarrow> 'a Sorter \<Rightarrow> ('a list \<Rightarrow> bool) \<Rightarrow> real" where
  "prob b (Done order) E = (if E order then 1 else 0)"
| "prob b (Compare neg zero pos) E =
     pSign b Negative * prob b neg E + pSign b Zero * prob b zero E + pSign b Positive * prob b pos E"

text \<open>
  The same probability by counting: the greatest number of calls a sorter makes, and the
  number of sequences of \<open>n\<close> values of \<^verbatim>\<open>Math.random()\<close>, all equally likely, for which
  the delivered order satisfies \<open>E\<close>.
\<close>

fun depth :: "'a Sorter \<Rightarrow> nat" where
  "depth (Done order) = 0"
| "depth (Compare neg zero pos) = Suc (max (depth neg) (max (depth zero) (depth pos)))"

definition favourable :: "nat \<Rightarrow> nat \<Rightarrow> 'a Sorter \<Rightarrow> ('a list \<Rightarrow> bool) \<Rightarrow> nat" where
  "favourable b n t E =
     length (filter (\<lambda>ks. case runSort t (map (draw b) ks) of Some order \<Rightarrow> E order | None \<Rightarrow> False)
               (List.n_lists n [0 ..< 2 ^ Suc b]))"

text \<open>
  An example of a sorter: straight insertion sort, which moves the new element to the
  left for as long as the comparator, called with its left neighbour and the element,
  answers with a positive number.
\<close>

primrec bindSorter :: "'a Sorter \<Rightarrow> ('a list \<Rightarrow> 'a Sorter) \<Rightarrow> 'a Sorter" where
  "bindSorter (Done order) k = k order"
| "bindSorter (Compare neg zero pos) k =
     Compare (bindSorter neg k) (bindSorter zero k) (bindSorter pos k)"

fun insertLeft :: "'a list \<Rightarrow> 'a \<Rightarrow> 'a list \<Rightarrow> 'a Sorter" where
  "insertLeft [] x right = Done (x # right)"
| "insertLeft (y # left_rev) x right =
     Compare (Done (rev left_rev @ y # x # right))
             (Done (rev left_rev @ y # x # right))
             (insertLeft left_rev x (y # right))"

definition insertionSort :: "'a list \<Rightarrow> 'a Sorter" where
  "insertionSort xs = foldl (\<lambda>t x. bindSorter t (\<lambda>sorted. insertLeft (rev sorted) x [])) (Done []) xs"

definition dyadic :: "real \<Rightarrow> bool" where
  "dyadic x = (\<exists>(k :: nat) d. x = real k / 2 ^ d)"

section \<open>Variant-count invariant\<close>

lemma length_splice1:
  "xs \<noteq> [] \<Longrightarrow> length xs - 1 \<le> length (splice1 i xs)" "length (splice1 i xs) \<le> length xs"
  by (auto simp: splice1_def Let_def)

lemma count_ok_addModel: "count_ok ms \<Longrightarrow> count_ok (addModel now ms)"
  by (auto simp: count_ok_def addModel_def Let_def MAX_MODELS_def MIN_MODELS_def)

lemma count_ok_removeModel: "count_ok ms \<Longrightarrow> count_ok (removeModel i ms)"
proof (cases "length ms > MIN_MODELS")
  case True
  assume ok: "count_ok ms"
  from True have ne: "ms \<noteq> []" by auto
  have "length ms - 1 \<le> length (splice1 i ms)" "length (splice1 i ms) \<le> length ms"
    using length_splice1 [where xs = ms and i = i] ne by auto
  with True ok show ?thesis
    by (auto simp: count_ok_def removeModel_def)
next
  case False
  assume "count_ok ms"
  with False show ?thesis by (simp add: removeModel_def)
qed

lemma count_ok_updateName: "count_ok ms \<Longrightarrow> updateName i name ms = Inr ms' \<Longrightarrow> count_ok ms'"
  by (auto simp: updateName_def count_ok_def split: if_splits)

lemma count_ok_setup_step: "count_ok (models_s s) \<Longrightarrow> count_ok (models_s (setup_step s ev))"
proof (cases ev)
  case (UpdateName i name)
  assume "count_ok (models_s s)"
  with UpdateName show ?thesis
    by (auto split: sum.splits dest: count_ok_updateName)
qed (simp_all add: count_ok_addModel count_ok_removeModel)

lemma count_ok_init: "count_ok (models_s SetupScreen_init)"
  by (simp add: count_ok_def SetupScreen_init_def MIN_MODELS_def MAX_MODELS_def)

lemma count_ok_foldl:
  "count_ok (models_s s) \<Longrightarrow> count_ok (models_s (foldl setup_step s evs))"
  by (induction evs arbitrary: s) (simp_all add: count_ok_setup_step)

lemma count_ok_setup_run: "count_ok (models_s (setup_run evs))"
  unfolding setup_run_def by (rule count_ok_foldl [OF count_ok_init])

lemma app_inv_step: "app_inv a \<Longrightarrow> app_inv (app_step a ev)"
  by (cases ev) (auto simp: app_inv_def count_ok_setup_step count_ok_init)

lemma app_inv_foldl: "app_inv a \<Longrightarrow> app_inv (foldl app_step a evs)"
  by (induction evs arbitrary: a) (simp_all add: app_inv_step)

lemma app_inv_run: "app_inv (app_run evs)"
  unfolding app_run_def
  by (rule app_inv_foldl) (simp add: app_inv_def App_init_def count_ok_init)

text \<open>A component rendered after the setup never receives an empty model list.\<close>

lemma downstream_models_nonempty: "stage (app_run evs) \<noteq> SETUP \<Longrightarrow> models_a (app_run evs) \<noteq> []"
  using app_inv_run [of evs] by (auto simp: app_inv_def count_ok_def MIN_MODELS_def)

text \<open>
  Claim C10. The setup screen starts with two models; \<^verbatim>\<open>addModel\<close> leaves a list of
  \<^verbatim>\<open>MAX_MODELS\<close> = 5 entries unchanged and \<^verbatim>\<open>removeModel\<close> leaves a list of
  \<^verbatim>\<open>MIN_MODELS\<close> = 2 entries unchanged; after any sequence of setup events the
  configured list has between 2 and 5 entries; and after any sequence of application
  events, whenever a downstream component is rendered (the stage is not \<^verbatim>\<open>SETUP\<close>) the
  model list it receives has between 2 and 5 entries.
\<close>

theorem variant_count_invariant:
  "length (models_s SetupScreen_init) = 2
   \<and> addModel now [m1, m2, m3, m4, m5] = [m1, m2, m3, m4, m5]
   \<and> removeModel i [m1, m2] = [m1, m2]
   \<and> 2 \<le> length (models_s (setup_run sevs)) \<and> length (models_s (setup_run sevs)) \<le> 5
   \<and> (stage (app_run evs) = SETUP
        \<or> (2 \<le> length (models_a (app_run evs)) \<and> length (models_a (app_run evs)) \<le> 5))"
proof -
  have init: "length (models_s SetupScreen_init) = 2"
    by (simp add: SetupScreen_init_def)
  have add: "addModel now [m1, m2, m3, m4, m5] = [m1, m2, m3, m4, m5]"
    by (simp add: addModel_def MAX_MODELS_def)
  have rem: "removeModel i [m1, m2] = [m1, m2]"
    by (simp add: removeModel_def MIN_MODELS_def)
  have s: "2 \<le> length (models_s (setup_run sevs)) \<and> length (models_s (setup_run sevs)) \<le> 5"
    using count_ok_setup_run [of sevs] by (simp add: count_ok_def MIN_MODELS_def MAX_MODELS_def)
  have a: "stage (app_run evs) = SETUP
        \<or> (2 \<le> length (models_a (app_run evs)) \<and> length (models_a (app_run evs)) \<le> 5)"
    using app_inv_run [of evs] by (auto simp: app_inv_def count_ok_def MIN_MODELS_def MAX_MODELS_def)
  from init add rem s a show ?thesis by simp
qed

section \<open>Base names\<close>

lemma getBaseName_match:
  assumes "ext \<noteq> []" "list_all ext_char ext"
  shows "getBaseName (pre @ CHR ''.'' # ext) = pre"
proof -
  have dot: "\<not> ext_char CHR ''.''"
    by (simp add: ext_char_def)
  have all: "\<And>x. x \<in> set (rev ext) \<Longrightarrow> ext_char x"
    using assms(2) by (simp add: list_all_iff)
  have a: "takeWhile ext_char (rev ext @ CHR ''.'' # rev pre) = rev ext"
    using takeWhile_append2 [of "rev ext" ext_char "CHR ''.'' # rev pre"] all dot by simp
  have b: "dropWhile ext_char (rev ext @ CHR ''.'' # rev pre) = CHR ''.'' # rev pre"
    using dropWhile_append2 [of "rev ext" ext_char "CHR ''.'' # rev pre"] all dot by simp
  show ?thesis
    using assms(1) by (simp add: getBaseName_def a b)
qed

lemma getBaseName_nomatch:
  assumes "\<not> (\<exists>pre ext. filename = pre @ CHR ''.'' # ext \<and> ext \<noteq> [] \<and> list_all ext_char ext)"
  shows "getBaseName filename = filename"
proof (cases "dropWhile ext_char (rev filename)")
  case Nil
  show ?thesis by (simp add: getBaseName_def Let_def Nil)
next
  case (Cons c pre)
  show ?thesis
  proof (cases "c = CHR ''.'' \<and> takeWhile ext_char (rev filename) \<noteq> []")
    case False
    then show ?thesis by (auto simp add: getBaseName_def Let_def Cons)
  next
    case True
    define ext where "ext = rev (takeWhile ext_char (rev filename))"
    have "rev filename = takeWhile ext_char (rev filename) @ c # pre"
      using Cons takeWhile_dropWhile_id [of ext_char "rev filename"] by simp
    then have "rev (rev filename) = rev (rev ext @ CHR ''.'' # pre)"
      using True by (simp add: ext_def)
    then have "filename = rev pre @ CHR ''.'' # ext"
      by simp
    moreover have "list_all ext_char ext"
      unfolding ext_def list_all_iff by (auto dest: set_takeWhileD)
    moreover have "ext \<noteq> []"
      using True by (simp add: ext_def)
    ultimately show ?thesis using assms by blast
  qed
qed

section \<open>Matcher: characterisation\<close>

lemma collectCommon_set:
  "set (collectCommon ex fs P C) =
     set C \<union> {b \<in> (\<lambda>f. getBaseName (name_f f)) ` set fs. b \<notin> P \<and> ex b}"
  by (induction fs arbitrary: P C) (auto simp: Let_def)

lemma collectCommon_distinct:
  "distinct C \<Longrightarrow> set C \<subseteq> P \<Longrightarrow> distinct (collectCommon ex fs P C)"
proof (induction fs arbitrary: P C)
  case Nil
  then show ?case by simp
next
  case (Cons f fs)
  let ?b = "getBaseName (name_f f)"
  show ?case
  proof (cases "?b \<in> P")
    case True
    with Cons show ?thesis by simp
  next
    case False
    have "distinct (collectCommon ex fs (insert ?b P) (if ex ?b then C @ [?b] else C))"
      using Cons.prems False by (intro Cons.IH) auto
    with False show ?thesis by (simp add: Let_def)
  qed
qed

lemma inOther_iff:
  "(case map_of mf k of None \<Rightarrow> False | Some fs \<Rightarrow> list_ex (\<lambda>f. getBaseName (name_f f) = b) fs)
     \<longleftrightarrow> b \<in> (\<lambda>f. getBaseName (name_f f)) ` set (case map_of mf k of None \<Rightarrow> [] | Some fs \<Rightarrow> fs)"
  by (cases "map_of mf k") (auto simp: list_ex_iff)

lemma existsInAll_iff:
  "existsInAll models mf fid b \<longleftrightarrow>
     (\<forall>m \<in> set models. id_mc m = fid \<or> b \<in> baseNamesOf mf m)"
  unfolding existsInAll_def list_all_iff baseNamesOf_def filesOf_def inOther_iff
  by auto

lemma baseNamesOf_cong: "id_mc m = id_mc m' \<Longrightarrow> baseNamesOf mf m = baseNamesOf mf m'"
  by (simp add: baseNamesOf_def filesOf_def)

lemma matches_char:
  assumes "models \<noteq> []" "length models \<le> length mf"
  shows "\<exists>ms. matches models mf = Inr ms \<and> sorted ms \<and> distinct ms
           \<and> set ms = {b. \<forall>m \<in> set models. b \<in> baseNamesOf mf m}"
proof -
  from assms(1) obtain m0 rest where models: "models = m0 # rest"
    by (cases models) auto
  define common where
    "common = collectCommon (existsInAll models mf (id_mc m0)) (filesOf mf m0) {} []"
  have eq: "matches models mf = Inr (sort common)"
    using assms(2) by (simp add: matches_def models common_def filesOf_def Let_def)
  have "set common = {b \<in> baseNamesOf mf m0. \<forall>m \<in> set models. id_mc m = id_mc m0 \<or> b \<in> baseNamesOf mf m}"
    by (simp add: common_def collectCommon_set existsInAll_iff baseNamesOf_def)
  also have "\<dots> = {b. \<forall>m \<in> set models. b \<in> baseNamesOf mf m}"
  proof -
    have "\<And>m b. id_mc m = id_mc m0 \<Longrightarrow> b \<in> baseNamesOf mf m0 \<Longrightarrow> b \<in> baseNamesOf mf m"
      by (simp add: baseNamesOf_def filesOf_def)
    moreover have "m0 \<in> set models"
      by (simp add: models)
    ultimately show ?thesis by blast
  qed
  finally have s: "set common = {b. \<forall>m \<in> set models. b \<in> baseNamesOf mf m}" .
  have d: "distinct common"
    unfolding common_def by (rule collectCommon_distinct) simp_all
  show ?thesis
    using eq s d by simp
qed

lemma matches_short: "length mf < length models \<Longrightarrow> matches models mf = Inr []"
  by (simp add: matches_def)

lemma matches_total: "models \<noteq> [] \<Longrightarrow> \<exists>ms. matches models mf = Inr ms"
  by (cases models) (simp_all add: matches_def Let_def)

lemma length_ge_of_hasList:
  assumes "distinct (map id_mc models)" "\<forall>m \<in> set models. hasList mf m"
  shows "length models \<le> length mf"
proof -
  have "length models = card (id_mc ` set models)"
    using assms(1) by (metis distinct_card length_map set_map)
  also have "\<dots> \<le> card (fst ` set mf)"
    using assms(2) by (intro card_mono) (auto simp: hasList_def)
  also have "\<dots> \<le> length mf"
    by (metis card_length length_map set_map)
  finally show ?thesis .
qed

lemma find_first:
  "\<exists>x \<in> set xs. P x \<Longrightarrow>
     \<exists>pre x post. find P xs = Some x \<and> xs = pre @ x # post \<and> P x \<and> (\<forall>y \<in> set pre. \<not> P y)"
proof (induction xs)
  case Nil
  then show ?case by simp
next
  case (Cons a xs)
  show ?case
  proof (cases "P a")
    case True
    then have "find P (a # xs) = Some a \<and> a # xs = [] @ a # xs \<and> P a \<and> (\<forall>y \<in> set []. \<not> P y)"
      by simp
    then show ?thesis by blast
  next
    case False
    with Cons.prems have "\<exists>x \<in> set xs. P x" by auto
    from Cons.IH [OF this] obtain pre x post where
      h: "find P xs = Some x" "xs = pre @ x # post" "P x" "\<forall>y \<in> set pre. \<not> P y"
      by blast
    have "find P (a # xs) = Some x \<and> a # xs = (a # pre) @ x # post \<and> P x \<and> (\<forall>y \<in> set (a # pre). \<not> P y)"
      using h False by simp
    then show ?thesis by blast
  qed
qed

lemma sequence_map_Inr:
  "(\<And>x. x \<in> set xs \<Longrightarrow> f x = Inr (g x)) \<Longrightarrow> sequence (map f xs) = Inr (map g xs)"
  by (induction xs) simp_all

lemma mkSource_Inr: "hasList mf m \<Longrightarrow> mkSource mf b m = Inr (theSource mf b m)"
proof -
  assume "hasList mf m"
  then obtain fs where "map_of mf (id_mc m) = Some fs"
    unfolding hasList_def by (metis map_of_eq_None_iff not_Some_eq)
  then show ?thesis
    by (simp add: mkSource_def theSource_def filesOf_def Let_def)
qed

lemma mkCase_Inr:
  "\<forall>m \<in> set models. hasList mf m \<Longrightarrow> mkCase models mf p = Inr (theCase models mf p)"
  by (simp add: mkCase_def theCase_def sequence_map_Inr [where g = "theSource mf (fst p)"] mkSource_Inr)

lemma handleStart_Inr:
  assumes "\<forall>m \<in> set models. hasList mf m" "matches models mf = Inr ms"
  shows "handleStart models mf =
           Inr (if ms = [] then None else Some (map (theCase models mf) (zip ms [0 ..< length ms])))"
  using assms
  by (simp add: handleStart_def
        sequence_map_Inr [where g = "theCase models mf"] mkCase_Inr)

section \<open>Matcher: the states the upload screen can reach\<close>

lemma keys_ok_step: "keys_ok models mf \<Longrightarrow> keys_ok models (upload_step models mediaType mf ev)"
proof (cases ev)
  case (FolderSelect i files)
  assume "keys_ok models mf"
  then show ?thesis
    unfolding FolderSelect keys_ok_def
    by (cases files)
       (auto simp: handleFolderSelect_def AList.dom_update AList.distinct_update)
next
  case (RemoveFiles i)
  assume "keys_ok models mf"
  then show ?thesis
    unfolding RemoveFiles keys_ok_def
    using AList.dom_delete_subset [of "id_mc (models ! i)" mf]
    by (auto simp: removeFiles_def AList.distinct_delete)
qed

lemma keys_ok_foldl:
  "keys_ok models mf \<Longrightarrow> keys_ok models (foldl (upload_step models mediaType) mf evs)"
  by (induction evs arbitrary: mf) (simp_all add: keys_ok_step)

lemma keys_ok_run: "keys_ok models (upload_run models mediaType evs)"
  unfolding upload_run_def by (rule keys_ok_foldl) (simp add: keys_ok_def)

lemma keys_ok_length:
  assumes "keys_ok models mf"
  shows "length mf \<le> length models"
    and "length models \<le> length mf \<Longrightarrow> (\<forall>m \<in> set models. hasList mf m)"
    and "(\<forall>m \<in> set models. hasList mf m) \<Longrightarrow> length models \<le> length mf \<longleftrightarrow> distinct (map id_mc models)"
proof -
  have sub: "fst ` set mf \<subseteq> id_mc ` set models" and d: "distinct (map fst mf)"
    using assms by (simp_all add: keys_ok_def)
  have c1: "length mf = card (fst ` set mf)"
    using d by (metis distinct_card length_map set_map)
  have c2: "card (fst ` set mf) \<le> card (id_mc ` set models)"
    using sub by (intro card_mono) auto
  have c3: "card (id_mc ` set models) \<le> length models"
    by (metis card_length length_map set_map)
  show le: "length mf \<le> length models"
    using c1 c2 c3 by simp
  {
    assume "length models \<le> length mf"
    then have "card (fst ` set mf) = card (id_mc ` set models)"
      using c1 c2 c3 by simp
    then have "fst ` set mf = id_mc ` set models"
      using sub by (intro card_subset_eq) auto
    then show "\<forall>m \<in> set models. hasList mf m"
      by (auto simp: hasList_def)
  }
  {
    assume "\<forall>m \<in> set models. hasList mf m"
    then have "id_mc ` set models \<subseteq> fst ` set mf"
      by (auto simp: hasList_def)
    with sub have "fst ` set mf = id_mc ` set models"
      by auto
    then have "length mf = card (id_mc ` set models)"
      using c1 by simp
    moreover have "card (id_mc ` set models) = length models \<longleftrightarrow> distinct (map id_mc models)"
      by (metis card_distinct distinct_card length_map set_map)
    ultimately show "length models \<le> length mf \<longleftrightarrow> distinct (map id_mc models)"
      using le by auto
  }
qed

lemma matches_empty_variant:
  assumes "matches models mf = Inr ms" "m \<in> set models" "filesOf mf m = []"
  shows "ms = []"
proof (cases "length mf < length models")
  case True
  with assms(1) show ?thesis by (simp add: matches_short)
next
  case False
  from assms(2) have ne: "models \<noteq> []" by auto
  from False have "length models \<le> length mf" by simp
  from matches_char [OF ne this] assms(1)
  have "set ms = {b. \<forall>m \<in> set models. b \<in> baseNamesOf mf m}" by auto
  moreover have "baseNamesOf mf m = {}"
    using assms(3) by (simp add: baseNamesOf_def)
  ultimately have "set ms = {}" using assms(2) by auto
  then show ?thesis by simp
qed

text \<open>
  Claim C1, as the code has it. Let the configured variants have pairwise distinct ids and
  let every one of them have a file list. Then the matcher returns, without error, the strictly increasing list
  (lexicographic order on the characters, so case-sensitive) of exactly those base names
  that occur in the list of every variant: a base name that several files of the first
  variant share appears once. When there is a match, \<^verbatim>\<open>handleStart\<close> passes on one
  test case per match, in that order, named by the base name, with one source per variant
  in the configured order, whose file is the first one in that variant's list having that
  base name (no file with that base name stands before it).
\<close>

theorem matcher_correct:
  assumes "models \<noteq> []" "distinct (map id_mc models)" "\<forall>m \<in> set models. hasList mf m"
  shows "\<exists>ms queue.
           matches models mf = Inr ms
         \<and> sorted ms \<and> distinct ms
         \<and> set ms = {b. \<forall>m \<in> set models. b \<in> baseNamesOf mf m}
         \<and> handleStart models mf = Inr (if ms = [] then None else Some queue)
         \<and> length queue = length ms
         \<and> (\<forall>k < length ms.
               name_tc (queue ! k) = ms ! k
             \<and> map modelId_vs (sources_tc (queue ! k)) = map id_mc models
             \<and> (\<forall>j < length models. \<exists>f pre post.
                   file_vs (sources_tc (queue ! k) ! j) = Some f
                 \<and> filesOf mf (models ! j) = pre @ f # post
                 \<and> getBaseName (name_f f) = ms ! k
                 \<and> (\<forall>g \<in> set pre. getBaseName (name_f g) \<noteq> ms ! k)))"
proof -
  have len: "length models \<le> length mf"
    using assms(2,3) by (rule length_ge_of_hasList)
  from matches_char [OF assms(1) len] obtain ms where
    ms: "matches models mf = Inr ms" "sorted ms" "distinct ms"
        "set ms = {b. \<forall>m \<in> set models. b \<in> baseNamesOf mf m}"
    by blast
  define queue where "queue = map (theCase models mf) (zip ms [0 ..< length ms])"
  have hs: "handleStart models mf = Inr (if ms = [] then None else Some queue)"
    unfolding queue_def using assms(3) ms(1) by (rule handleStart_Inr)
  have lq: "length queue = length ms"
    by (simp add: queue_def)
  have per: "name_tc (queue ! k) = ms ! k
             \<and> map modelId_vs (sources_tc (queue ! k)) = map id_mc models
             \<and> (\<forall>j < length models. \<exists>f pre post.
                   file_vs (sources_tc (queue ! k) ! j) = Some f
                 \<and> filesOf mf (models ! j) = pre @ f # post
                 \<and> getBaseName (name_f f) = ms ! k
                 \<and> (\<forall>g \<in> set pre. getBaseName (name_f g) \<noteq> ms ! k))" if k: "k < length ms" for k
  proof -
    have qk: "queue ! k = theCase models mf (ms ! k, k)"
      using k by (simp add: queue_def)
    have n: "name_tc (queue ! k) = ms ! k"
      by (simp add: qk theCase_def)
    have i: "map modelId_vs (sources_tc (queue ! k)) = map id_mc models"
      by (simp add: qk theCase_def theSource_def Let_def comp_def)
    have f: "\<exists>f pre post.
                   file_vs (sources_tc (queue ! k) ! j) = Some f
                 \<and> filesOf mf (models ! j) = pre @ f # post
                 \<and> getBaseName (name_f f) = ms ! k
                 \<and> (\<forall>g \<in> set pre. getBaseName (name_f g) \<noteq> ms ! k)" if j: "j < length models" for j
    proof -
      have "ms ! k \<in> set ms" using k by simp
      then have "ms ! k \<in> baseNamesOf mf (models ! j)"
        using ms(4) j by auto
      then have "\<exists>x \<in> set (filesOf mf (models ! j)). getBaseName (name_f x) = ms ! k"
        by (auto simp: baseNamesOf_def)
      from find_first [where P = "\<lambda>f. getBaseName (name_f f) = ms ! k", OF this]
      obtain pre x post where
        "find (\<lambda>f. getBaseName (name_f f) = ms ! k) (filesOf mf (models ! j)) = Some x"
        "filesOf mf (models ! j) = pre @ x # post" "getBaseName (name_f x) = ms ! k"
        "\<forall>y \<in> set pre. getBaseName (name_f y) \<noteq> ms ! k"
        by blast
      moreover have "file_vs (sources_tc (queue ! k) ! j)
                       = find (\<lambda>f. getBaseName (name_f f) = ms ! k) (filesOf mf (models ! j))"
        using j by (simp add: qk theCase_def theSource_def Let_def)
      ultimately show ?thesis by metis
    qed
    from n i f show ?thesis by blast
  qed
  from ms hs lq per show ?thesis by blast
qed

text \<open>The end-to-end scenario of the specification as an instance.\<close>

theorem matcher_correct_witness:
  "ex_models \<noteq> [] \<and> distinct (map id_mc ex_models) \<and> list_all (hasList ex_files) ex_models
   \<and> (\<exists>ms queue.
           matches ex_models ex_files = Inr ms
         \<and> ms = [''x'']
         \<and> set ms = {b. \<forall>m \<in> set ex_models. b \<in> baseNamesOf ex_files m}
         \<and> handleStart ex_models ex_files = Inr (Some queue)
         \<and> length queue = 1
         \<and> (\<forall>k < length ms.
               name_tc (queue ! k) = ms ! k
             \<and> map modelId_vs (sources_tc (queue ! k)) = map id_mc ex_models
             \<and> (\<forall>j < length ex_models. \<exists>f pre post.
                   file_vs (sources_tc (queue ! k) ! j) = Some f
                 \<and> filesOf ex_files (ex_models ! j) = pre @ f # post
                 \<and> getBaseName (name_f f) = ms ! k
                 \<and> (\<forall>g \<in> set pre. getBaseName (name_f g) \<noteq> ms ! k))))"
proof -
  have h1: "ex_models \<noteq> []"
    by (simp add: ex_models_def)
  have h2: "distinct (map id_mc ex_models)"
    by (simp add: ex_models_def)
  have h3: "\<forall>m \<in> set ex_models. hasList ex_files m"
    by (simp add: ex_models_def ex_files_def hasList_def)
  have ev: "matches ex_models ex_files = Inr [''x'']"
    by (simp add: matches_def ex_models_def ex_files_def existsInAll_def getBaseName_def
          ext_char_def Let_def)
  from matcher_correct [OF h1 h2 h3] obtain ms queue where
    c: "matches ex_models ex_files = Inr ms"
       "set ms = {b. \<forall>m \<in> set ex_models. b \<in> baseNamesOf ex_files m}"
       "handleStart ex_models ex_files = Inr (if ms = [] then None else Some queue)"
       "length queue = length ms"
       "\<forall>k < length ms.
               name_tc (queue ! k) = ms ! k
             \<and> map modelId_vs (sources_tc (queue ! k)) = map id_mc ex_models
             \<and> (\<forall>j < length ex_models. \<exists>f pre post.
                   file_vs (sources_tc (queue ! k) ! j) = Some f
                 \<and> filesOf ex_files (ex_models ! j) = pre @ f # post
                 \<and> getBaseName (name_f f) = ms ! k
                 \<and> (\<forall>g \<in> set pre. getBaseName (name_f g) \<noteq> ms ! k))"
    by blast
  from c(1) ev have m: "ms = [''x'']" by simp
  from c(3,4) m have q: "handleStart ex_models ex_files = Inr (Some queue)" "length queue = 1"
    by simp_all
  from h1 h2 h3 c(1,2,5) m q show ?thesis
    unfolding list_all_iff by blast
qed

text \<open>
  The claim as stated fails when two configured variants share an id: the table then has
  fewer keys than there are variants, and the matcher returns the empty list although
  every variant has a list and the base name \<^verbatim>\<open>x\<close> occurs in each of them.
\<close>

theorem matcher_duplicate_ids_counterexample:
  "map id_mc dup_models = [''m1'', ''m2'', ''m5'', ''m5'']
   \<and> list_all (hasList dup_files) dup_models
   \<and> list_all (\<lambda>m. ''x'' \<in> baseNamesOf dup_files m) dup_models
   \<and> matches dup_models dup_files = Inr []
   \<and> handleStart dup_models dup_files = Inr None"
  by code_simp

text \<open>
  Claim C2. For a non-empty configured model list and the file table reached by any
  sequence of folder selections and removals on the upload screen, computing the matches
  and the readiness predicate raises no error; readiness is true exactly when the match
  list is non-empty and every configured variant has a loaded file list; when readiness is
  false, and in particular with no files at all or with a variant whose loaded list is
  missing or has no valid file, the match list is empty.
\<close>

theorem matcher_readiness:
  assumes "models \<noteq> []" and mf: "mf = upload_run models mediaType evs"
  shows "\<exists>ms. matches models mf = Inr ms
           \<and> isReady models mf = Inr (ms \<noteq> [] \<and> (\<forall>m \<in> set models. hasList mf m))
           \<and> (isReady models mf = Inr False \<longrightarrow> ms = [])
           \<and> (evs = [] \<longrightarrow> ms = [])
           \<and> ((\<exists>m \<in> set models. filesOf mf m = []) \<longrightarrow> ms = [])"
proof -
  from matches_total [OF assms(1)] obtain ms where ms: "matches models mf = Inr ms"
    by blast
  have ok: "keys_ok models mf"
    unfolding mf by (rule keys_ok_run)
  have ne: "length models \<le> length mf" if "ms \<noteq> []"
    using that ms matches_short [of mf models] by (cases "length mf < length models") auto
  have eq: "length mf = length models" if "ms \<noteq> []"
    using ne [OF that] keys_ok_length(1) [OF ok] by simp
  have all: "\<forall>m \<in> set models. hasList mf m" if "ms \<noteq> []"
    using keys_ok_length(2) [OF ok ne [OF that]] .
  have ready: "isReady models mf = Inr (ms \<noteq> [] \<and> length mf = length models)"
    by (simp add: isReady_def ms)
  have r1: "isReady models mf = Inr (ms \<noteq> [] \<and> (\<forall>m \<in> set models. hasList mf m))"
    using ready eq all by auto
  have r2: "isReady models mf = Inr False \<longrightarrow> ms = []"
    using ready eq by auto
  have r3: "evs = [] \<longrightarrow> ms = []"
    using ms assms(1) by (auto simp: mf upload_run_def matches_def)
  have r4: "(\<exists>m \<in> set models. filesOf mf m = []) \<longrightarrow> ms = []"
    using matches_empty_variant [OF ms] by blast
  from ms r1 r2 r3 r4 show ?thesis by blast
qed

text \<open>The same scenario reached by two folder selections, and the empty table.\<close>

theorem matcher_readiness_witness:
  "ex_models \<noteq> []
   \<and> upload_run ex_models video ex_events = ex_files
   \<and> matches ex_models ex_files = Inr [''x'']
   \<and> isReady ex_models ex_files = Inr True
   \<and> list_all (hasList ex_files) ex_models
   \<and> matches ex_models (upload_run ex_models video []) = Inr []
   \<and> isReady ex_models (upload_run ex_models video []) = Inr False"
proof -
  have h1: "ex_models \<noteq> []"
    by (simp add: ex_models_def)
  have run: "upload_run ex_models video ex_events = ex_files"
    by (simp add: upload_run_def ex_models_def ex_events_def ex_files_def handleFolderSelect_def
          validFile_def startsWith_def test_ext_def endsWith_def toLower_def)
  have ev: "matches ex_models ex_files = Inr [''x'']"
    by (simp add: matches_def ex_models_def ex_files_def existsInAll_def getBaseName_def
          ext_char_def Let_def)
  from matcher_readiness [OF h1 run [symmetric]] ev
  have a: "isReady ex_models ex_files = Inr True" "\<forall>m \<in> set ex_models. hasList ex_files m"
    by auto
  from matcher_readiness [OF h1 refl, of video "[]"] obtain ms where
    b: "matches ex_models (upload_run ex_models video []) = Inr ms"
       "isReady ex_models (upload_run ex_models video []) = Inr (ms \<noteq> [] \<and> (\<forall>m \<in> set ex_models. hasList (upload_run ex_models video []) m))"
       "ms = []"
    by blast
  from h1 run ev a b show ?thesis
    unfolding list_all_iff by simp
qed

section \<open>The frame loop of the video path\<close>

lemma list_all_ended: "list_all (ended env k) [0 ..< n] \<longleftrightarrow> allEnded env n k"
  by (auto simp: list_all_iff allEnded_def)

lemma drawFrame_recording:
  "drawFrame env n recording k = (if allEnded env n k then Stop else Again)"
  by (simp add: drawFrame_def list_all_ended)

lemma frameLoop_unfold:
  "frameLoop env n recording k =
     (if allEnded env n k then Some (StoppedAt k) else frameLoop env n recording (Suc k))"
  by (subst frameLoop.simps) (simp add: drawFrame_recording)

lemma frameLoop_stops:
  "allEnded env n (k + d) \<Longrightarrow> (\<forall>j < d. \<not> allEnded env n (k + j))
     \<Longrightarrow> frameLoop env n recording k = Some (StoppedAt (k + d))"
proof (induction d arbitrary: k)
  case 0
  then show ?case by (subst frameLoop_unfold) simp
next
  case (Suc d)
  have now: "\<not> allEnded env n k"
    using Suc.prems(2) by (metis add.right_neutral zero_less_Suc)
  have later: "\<forall>j < d. \<not> allEnded env n (Suc k + j)"
    using Suc.prems(2) by (metis Suc_less_eq add_Suc_shift)
  have "frameLoop env n recording (Suc k) = Some (StoppedAt (Suc k + d))"
    using Suc.prems(1) later by (intro Suc.IH) simp_all
  with now show ?case
    by (subst frameLoop_unfold) simp
qed

lemma frameLoop_result_aux:
  "frameLoop env n rs k = Some r \<Longrightarrow>
     rs = recording \<longrightarrow>
     (\<exists>d. r = StoppedAt (k + d) \<and> allEnded env n (k + d) \<and> (\<forall>j < d. \<not> allEnded env n (k + j)))"
proof (induction rule: frameLoop.raw_induct [rotated 1, consumes 1])
  case (1 loop env n rs k r)
  show ?case
  proof (intro impI)
    assume rs: "rs = recording"
    show "\<exists>d. r = StoppedAt (k + d) \<and> allEnded env n (k + d) \<and> (\<forall>j < d. \<not> allEnded env n (k + j))"
    proof (cases "allEnded env n k")
      case True
      with 1(2) rs have "r = StoppedAt (k + 0)"
        by (simp add: drawFrame_recording)
      with True show ?thesis
        by (metis add.right_neutral not_less_zero)
    next
      case False
      with 1(2) rs have "loop env n rs (Suc k) = Some r"
        by (simp add: drawFrame_recording)
      from 1(1) [OF this] rs obtain d where
        d: "r = StoppedAt (Suc k + d)" "allEnded env n (Suc k + d)"
           "\<forall>j < d. \<not> allEnded env n (Suc k + j)"
        by blast
      have "\<forall>j < Suc d. \<not> allEnded env n (k + j)"
      proof (intro allI impI)
        fix j assume "j < Suc d"
        then show "\<not> allEnded env n (k + j)"
          using False d(3) by (cases j) simp_all
      qed
      with d(1,2) have "r = StoppedAt (k + Suc d) \<and> allEnded env n (k + Suc d)
          \<and> (\<forall>j < Suc d. \<not> allEnded env n (k + j))"
        by simp
      then show ?thesis by blast
    qed
  qed
qed

lemma frameLoop_result:
  "frameLoop env n rs k = Some r \<Longrightarrow> rs = recording \<Longrightarrow>
     \<exists>d. r = StoppedAt (k + d) \<and> allEnded env n (k + d) \<and> (\<forall>j < d. \<not> allEnded env n (k + j))"
  using frameLoop_result_aux by blast

lemma frameLoop_iff:
  "frameLoop env n recording 0 = Some r \<longleftrightarrow>
     (\<exists>m. r = StoppedAt m \<and> allEnded env n m \<and> (\<forall>k < m. \<not> allEnded env n k))"
proof
  assume "frameLoop env n recording 0 = Some r"
  from frameLoop_result [OF this refl] show
    "\<exists>m. r = StoppedAt m \<and> allEnded env n m \<and> (\<forall>k < m. \<not> allEnded env n k)"
    by simp
next
  assume "\<exists>m. r = StoppedAt m \<and> allEnded env n m \<and> (\<forall>k < m. \<not> allEnded env n k)"
  then obtain m where "r = StoppedAt m" "allEnded env n m" "\<forall>k < m. \<not> allEnded env n k"
    by blast
  with frameLoop_stops [of env n 0 m] show "frameLoop env n recording 0 = Some r"
    by simp
qed

lemma frameLoop_None_iff:
  "frameLoop env n recording 0 = None \<longleftrightarrow> (\<forall>k. \<not> allEnded env n k)"
proof
  assume none: "frameLoop env n recording 0 = None"
  show "\<forall>k. \<not> allEnded env n k"
  proof (rule ccontr)
    assume "\<not> (\<forall>k. \<not> allEnded env n k)"
    then obtain k where k: "allEnded env n k" by blast
    define m where "m = (LEAST k. allEnded env n k)"
    have "allEnded env n m" "\<forall>j < m. \<not> allEnded env n j"
      unfolding m_def using k by (auto intro: LeastI dest: not_less_Least)
    with frameLoop_stops [of env n 0 m] none show False by simp
  qed
next
  assume never: "\<forall>k. \<not> allEnded env n k"
  show "frameLoop env n recording 0 = None"
  proof (cases "frameLoop env n recording 0")
    case (Some r)
    from frameLoop_result [OF this refl] never show ?thesis by auto
  qed simp
qed

section \<open>The composite renderer\<close>

lemma createObjectURL_nonempty: "fst (createObjectURL st) \<noteq> []"
  by (simp add: createObjectURL_def Let_def)

lemma assignSrc_length: "assignSrc sources st = (urls, st1) \<Longrightarrow> length urls = length sources"
  by (induction sources arbitrary: st urls st1)
     (auto simp: Let_def split: option.splits prod.splits)

lemma assignSrc_loads:
  "assignSrc sources st = (urls, st1) \<Longrightarrow>
     map (\<lambda>(s, u). loadElement env s u) (zip sources urls) = map (loadOf env) sources"
proof (induction sources arbitrary: st urls st1)
  case Nil
  then show ?case by simp
next
  case (Cons s ss)
  show ?case
  proof (cases "file_vs s")
    case None
    obtain us st2 where rest: "assignSrc ss st = (us, st2)"
      by (cases "assignSrc ss st") auto
    have urls: "urls = (case url_vs s of Some u \<Rightarrow> u | None \<Rightarrow> []) # us"
      using Cons.prems None rest by simp
    have hd: "loadElement env s (case url_vs s of Some u \<Rightarrow> u | None \<Rightarrow> []) = loadOf env s"
      using None by (auto simp: loadElement_def loadOf_def emptySrc_def split: option.splits)
    show ?thesis
      using Cons.IH [OF rest] hd by (simp add: urls)
  next
    case (Some f)
    obtain u st2 where c: "createObjectURL st = (u, st2)"
      by (cases "createObjectURL st") auto
    obtain us st3 where rest: "assignSrc ss st2 = (us, st3)"
      by (cases "assignSrc ss st2") auto
    have urls: "urls = u # us"
      using Cons.prems Some c rest by simp
    have "u \<noteq> []"
      using createObjectURL_nonempty [of st] c by simp
    then have hd: "loadElement env s u = loadOf env s"
      using Some by (simp add: loadElement_def loadOf_def emptySrc_def)
    show ?thesis
      using Cons.IH [OF rest] hd by (simp add: urls)
  qed
qed

lemma find_Failed_None:
  "length sources = length results \<Longrightarrow>
     find (\<lambda>(s, r). r = Failed) (zip sources results) = None \<longleftrightarrow> Failed \<notin> set results"
proof -
  assume len: "length sources = length results"
  have "find (\<lambda>(s, r). r = Failed) (zip sources results) = None
          \<longleftrightarrow> (\<forall>p \<in> set (zip sources results). snd p \<noteq> Failed)"
    by (auto simp: find_None_iff)
  also have "\<dots> \<longleftrightarrow> (\<forall>r \<in> snd ` set (zip sources results). r \<noteq> Failed)"
    by auto
  also have "snd ` set (zip sources results) = set results"
    using len by (metis map_snd_zip set_map)
  finally show ?thesis by auto
qed

lemma promiseAll_rejected:
  assumes "length sources = length results"
  shows "(\<exists>e. promiseAll msg sources urls results = RejectedWith e) \<longleftrightarrow> Failed \<in> set results"
proof (cases "find (\<lambda>(s, r). r = Failed) (zip sources results)")
  case None
  with find_Failed_None [OF assms] show ?thesis
    by (simp add: promiseAll_def)
next
  case (Some p)
  with find_Failed_None [OF assms] show ?thesis
    by (cases p) (simp add: promiseAll_def)
qed

lemma promiseAll_fulfilled:
  assumes "length sources = length results"
  shows "promiseAll msg sources urls results = Fulfilled els \<longleftrightarrow>
           Failed \<notin> set results \<and> Stalled \<notin> set results \<and> els = map toElement (zip urls results)"
proof (cases "find (\<lambda>(s, r). r = Failed) (zip sources results)")
  case None
  with find_Failed_None [OF assms] show ?thesis
    by (auto simp: promiseAll_def list_ex_iff)
next
  case (Some p)
  with find_Failed_None [OF assms] show ?thesis
    by (cases p) (simp add: promiseAll_def)
qed

lemma totalWidth_sum: "totalWidth els = sum_list (map width_el els)"
proof -
  have "foldl (\<lambda>acc el. acc + width_el el) a els = a + sum_list (map width_el els)" for a
    by (induction els arbitrary: a) simp_all
  then show ?thesis by (simp add: totalWidth_def)
qed

lemma foldr_max_Max: "xs \<noteq> [] \<Longrightarrow> foldr max xs (0::nat) = Max (set xs)"
proof (induction xs)
  case Nil
  then show ?case by simp
next
  case (Cons x xs)
  show ?case
  proof (cases "xs = []")
    case True
    then show ?thesis by simp
  next
    case False
    with Cons.IH show ?thesis by simp
  qed
qed

lemma elements_dims:
  assumes "Failed \<notin> set (map (loadOf env) sources)" "Stalled \<notin> set (map (loadOf env) sources)"
    and "length urls = length sources"
  shows "map width_el (map toElement (zip urls (map (loadOf env) sources))) = map (naturalWidth env) sources"
    and "map height_el (map toElement (zip urls (map (loadOf env) sources))) = map (naturalHeight env) sources"
    and "map src_el (map toElement (zip urls (map (loadOf env) sources))) = urls"
    and "\<forall>s \<in> set sources. sourceLoads env s"
  using assms
proof (induction sources arbitrary: urls)
  case Nil
  {
    case 1 then show ?case by simp
  next
    case 2 then show ?case by simp
  next
    case 3 then show ?case by simp
  next
    case 4 then show ?case by simp
  }
next
  case (Cons s ss)
  {
    case 1
    then obtain u us where u: "urls = u # us" by (cases urls) auto
    from 1 obtain w h where l: "loadOf env s = Loaded w h"
      by (cases "loadOf env s") auto
    from 1 u Cons.IH(1) [of us] l show ?case
      by (simp add: naturalWidth_def)
  next
    case 2
    then obtain u us where u: "urls = u # us" by (cases urls) auto
    from 2 obtain w h where l: "loadOf env s = Loaded w h"
      by (cases "loadOf env s") auto
    from 2 u Cons.IH(2) [of us] l show ?case
      by (simp add: naturalHeight_def)
  next
    case 3
    then obtain u us where u: "urls = u # us" by (cases urls) auto
    from 3 obtain w h where l: "loadOf env s = Loaded w h"
      by (cases "loadOf env s") auto
    from 3 u Cons.IH(3) [of us] l show ?case
      by simp
  next
    case 4
    then obtain u us where u: "urls = u # us" by (cases urls) auto
    from 4 obtain w h where l: "loadOf env s = Loaded w h"
      by (cases "loadOf env s") auto
    from 4 u Cons.IH(4) [of us] l show ?case
      by (simp add: sourceLoads_def)
  }
qed

lemma loads_iff:
  "(\<forall>s \<in> set sources. sourceLoads env s) \<longleftrightarrow>
     Failed \<notin> set (map (loadOf env) sources) \<and> Stalled \<notin> set (map (loadOf env) sources)"
proof -
  have "sourceLoads env s \<longleftrightarrow> loadOf env s \<noteq> Failed \<and> loadOf env s \<noteq> Stalled" for s
    by (cases "loadOf env s") (simp_all add: sourceLoads_def)
  then show ?thesis
    unfolding set_map image_iff by metis
qed

lemma fails_iff:
  "(\<exists>s \<in> set sources. sourceFails env s) \<longleftrightarrow> Failed \<in> set (map (loadOf env) sources)"
  unfolding sourceFails_def set_map image_iff by metis

lemma stitchImage_unfold:
  assumes "assignSrc sources st = (urls, st1)"
  shows "stitchImage env st sources models =
     (case promiseAll ''Failed to load image: '' sources urls (map (loadOf env) sources) of
        RejectedWith e \<Rightarrow> (Rejected e, st1)
      | Unsettled \<Rightarrow> (Pending, st1)
      | Fulfilled images \<Rightarrow>
          (let canvas0 = \<lparr> width_c = totalWidth images, height_c = maxHeight images, ops = [] \<rparr> in
           if \<not> context2d env then (Rejected (Error ''Canvas context failed''), st1)
           else
             (let canvas = canvas0 \<lparr> ops :=
                    FillRect ''#000'' 0 0 (width_c canvas0) (height_c canvas0)
                      # drawTiles models sources images 0 0 \<rparr>
              in case toBlob env canvas of
                   Some b \<Rightarrow> (Resolved \<lparr> blob = b, extension = ''png'' \<rparr>, revokeAll images st1)
                 | None \<Rightarrow> (Rejected (Error ''Failed to create image blob''), st1))))"
  by (simp add: stitchImage_def assms assignSrc_loads [OF assms])

lemma stitchVideo_unfold:
  assumes "assignSrc sources st = (urls, st1)"
  shows "stitchVideo env st sources models =
     (case promiseAll ''Failed to load video: '' sources urls (map (loadOf env) sources) of
        RejectedWith e \<Rightarrow> (Rejected e, st1)
      | Unsettled \<Rightarrow> (Pending, st1)
      | Fulfilled videos \<Rightarrow>
          if \<not> context2d env then (Rejected (Error ''Could not get canvas context''), st1)
          else
            (let selectedMimeType = selectMimeType env;
                 ext = (if includes_str selectedMimeType ''mp4'' then ''mp4'' else ''webm'')
             in if \<not> isTypeSupported env selectedMimeType
                then (Rejected (Error ''NotSupportedError: MediaRecorder''), st1)
                else
                  (case frameLoop env (length videos) recording 0 of
                     Some (StoppedAt k) \<Rightarrow>
                       (Resolved \<lparr> blob = VideoBlob selectedMimeType (totalWidth videos)
                                          (maxHeight videos) (Suc k),
                                   extension = ext \<rparr>,
                        revokeAll videos st1)
                   | Some (Abandoned k) \<Rightarrow> (Pending, st1)
                   | None \<Rightarrow> (Pending, st1))))"
  by (simp add: stitchVideo_def assms assignSrc_loads [OF assms])

lemma stitchImage_resolved:
  assumes "stitchImage env st sources models = (Resolved art, st')"
    and a: "assignSrc sources st = (urls, st1)"
  shows "context2d env \<and> (\<forall>s \<in> set sources. sourceLoads env s)
         \<and> st' = revokeAll (map toElement (zip urls (map (loadOf env) sources))) st1
         \<and> (\<exists>canvas. blob art = PngBlob canvas \<and> extension art = ''png''
               \<and> width_c canvas = sum_list (map (naturalWidth env) sources)
               \<and> height_c canvas = maxHeight (map toElement (zip urls (map (loadOf env) sources))))"
proof -
  let ?results = "map (loadOf env) sources"
  let ?els = "map toElement (zip urls ?results)"
  have len: "length sources = length ?results" by simp
  have lu: "length urls = length sources" using a by (rule assignSrc_length)
  obtain images where f: "promiseAll ''Failed to load image: '' sources urls ?results = Fulfilled images"
    using assms(1) unfolding stitchImage_unfold [OF a]
    by (cases "promiseAll ''Failed to load image: '' sources urls ?results") simp_all
  from promiseAll_fulfilled [OF len, of _ urls images] f
  have ok: "Failed \<notin> set ?results" "Stalled \<notin> set ?results" and im: "images = ?els"
    by blast+
  have ctx: "context2d env"
    using assms(1) unfolding stitchImage_unfold [OF a] f by (auto simp: Let_def split: if_splits)
  have w: "totalWidth ?els = sum_list (map (naturalWidth env) sources)"
    using elements_dims(1) [OF ok lu] by (simp add: totalWidth_sum)
  have res: "blob art = PngBlob \<lparr> width_c = totalWidth ?els, height_c = maxHeight ?els,
                ops = FillRect ''#000'' 0 0 (totalWidth ?els) (maxHeight ?els)
                      # drawTiles models sources ?els 0 0 \<rparr>
             \<and> extension art = ''png'' \<and> st' = revokeAll ?els st1"
    using assms(1) ctx unfolding stitchImage_unfold [OF a] f im
    by (auto simp: Let_def toBlob_def split: if_splits)
  from res w ctx ok show ?thesis
    unfolding loads_iff by auto
qed

lemma stitchVideo_resolved:
  assumes "stitchVideo env st sources models = (Resolved art, st')"
    and a: "assignSrc sources st = (urls, st1)"
  shows "context2d env \<and> (\<forall>s \<in> set sources. sourceLoads env s)
         \<and> st' = revokeAll (map toElement (zip urls (map (loadOf env) sources))) st1
         \<and> (\<exists>mime w h m. blob art = VideoBlob mime w h (Suc m)
               \<and> frameLoop env (length sources) recording 0 = Some (StoppedAt m))"
proof -
  let ?results = "map (loadOf env) sources"
  let ?els = "map toElement (zip urls ?results)"
  have len: "length sources = length ?results" by simp
  have lu: "length urls = length sources" using a by (rule assignSrc_length)
  obtain videos where f: "promiseAll ''Failed to load video: '' sources urls ?results = Fulfilled videos"
    using assms(1) unfolding stitchVideo_unfold [OF a]
    by (cases "promiseAll ''Failed to load video: '' sources urls ?results") simp_all
  from promiseAll_fulfilled [OF len, of _ urls videos] f
  have ok: "Failed \<notin> set ?results" "Stalled \<notin> set ?results" and im: "videos = ?els"
    by blast+
  have lv: "length videos = length sources"
    using lu by (simp add: im)
  have ctx: "context2d env"
    using assms(1) unfolding stitchVideo_unfold [OF a] f by (auto simp: Let_def split: if_splits)
  have sup: "isTypeSupported env (selectMimeType env)"
    using assms(1) ctx unfolding stitchVideo_unfold [OF a] f by (auto simp: Let_def split: if_splits)
  obtain m where m: "frameLoop env (length sources) recording 0 = Some (StoppedAt m)"
    using assms(1) ctx sup unfolding stitchVideo_unfold [OF a] f
    by (auto simp: Let_def lv split: option.splits FrameEnd.splits)
  have res: "blob art = VideoBlob (selectMimeType env) (totalWidth videos) (maxHeight videos) (Suc m)
             \<and> st' = revokeAll videos st1"
    using assms(1) ctx sup m unfolding stitchVideo_unfold [OF a] f
    by (auto simp: Let_def lv)
  from res m ctx ok im show ?thesis
    unfolding loads_iff by auto
qed

lemma stitch_rejects_on_failure:
  assumes "Failed \<in> set (map (loadOf env) sources)"
  shows "\<exists>e. fst (stitchImage env st sources models) = Rejected e"
    and "\<exists>e. fst (stitchVideo env st sources models) = Rejected e"
proof -
  obtain urls st1 where a: "assignSrc sources st = (urls, st1)"
    by (cases "assignSrc sources st") auto
  have len: "length sources = length (map (loadOf env) sources)" by simp
  from promiseAll_rejected [OF len, of "''Failed to load image: ''" urls] assms
  obtain e where "promiseAll ''Failed to load image: '' sources urls (map (loadOf env) sources) = RejectedWith e"
    by blast
  then show "\<exists>e. fst (stitchImage env st sources models) = Rejected e"
    unfolding stitchImage_unfold [OF a] by simp
  from promiseAll_rejected [OF len, of "''Failed to load video: ''" urls] assms
  obtain e where "promiseAll ''Failed to load video: '' sources urls (map (loadOf env) sources) = RejectedWith e"
    by blast
  then show "\<exists>e. fst (stitchVideo env st sources models) = Rejected e"
    unfolding stitchVideo_unfold [OF a] by simp
qed

lemma stitch_rejects_without_context:
  assumes "\<not> context2d env" "\<forall>s \<in> set sources. sourceLoads env s"
  shows "\<exists>e. fst (stitchImage env st sources models) = Rejected e"
    and "\<exists>e. fst (stitchVideo env st sources models) = Rejected e"
proof -
  obtain urls st1 where a: "assignSrc sources st = (urls, st1)"
    by (cases "assignSrc sources st") auto
  have len: "length sources = length (map (loadOf env) sources)" by simp
  have ok: "Failed \<notin> set (map (loadOf env) sources)" "Stalled \<notin> set (map (loadOf env) sources)"
    using assms(2) unfolding loads_iff by simp_all
  from promiseAll_fulfilled [OF len, of "''Failed to load image: ''" urls] ok
  have "promiseAll ''Failed to load image: '' sources urls (map (loadOf env) sources)
          = Fulfilled (map toElement (zip urls (map (loadOf env) sources)))"
    by blast
  then show "\<exists>e. fst (stitchImage env st sources models) = Rejected e"
    unfolding stitchImage_unfold [OF a] using assms(1) by (simp add: Let_def)
  from promiseAll_fulfilled [OF len, of "''Failed to load video: ''" urls] ok
  have "promiseAll ''Failed to load video: '' sources urls (map (loadOf env) sources)
          = Fulfilled (map toElement (zip urls (map (loadOf env) sources)))"
    by blast
  then show "\<exists>e. fst (stitchVideo env st sources models) = Rejected e"
    unfolding stitchVideo_unfold [OF a] using assms(1) by simp
qed

lemma show_nat_digits: "show_nat 0 = ''0''" "show_nat (Suc 0) = ''1''"
  by code_simp+

lemma ex_env_simps:
  "decode ex_env s =
     (if name_vs s = ''a.png'' then Loaded 100 50
      else if name_vs s = ''b.png'' then Loaded 200 50
      else if name_vs s = ''flat.svg'' then Loaded 100 0
      else Failed)"
  "context2d ex_env" "encodePng ex_env"
  "isTypeSupported ex_env t \<longleftrightarrow> t = ''video/webm''"
  "ended ex_env k j \<longleftrightarrow> 2 + j \<le> k"
  by (simp_all add: ex_env_def)

lemmas stitch_eval =
  stitchMedia_def stitchImage_def stitchVideo_def promiseAll_def loadElement_def
  createObjectURL_def revokeObjectURL_def toBlob_def maxHeight_def totalWidth_def
  modelName_def startsWith_def selectMimeType_def mimeTypes_def includes_str_def
  ex_env_simps ex_store_def ex_source_def ex_models_def canvasOf_def Let_def show_nat_digits

lemma stitchMedia_nonempty:
  "stitchMedia env st sources models mediaType = (Resolved art, st') \<Longrightarrow> sources \<noteq> []"
  by (auto simp: stitchMedia_def)

text \<open>
  Claim C3, as the code has it. For every successful image composite the canvas, which is
  what the PNG artifact encodes, is as wide as the sum of the sources' natural widths; it
  is as high as the maximum of their natural heights when that maximum is positive, and
  720 pixels high when every source has natural height 0.
\<close>

theorem image_composite_geometry:
  assumes "stitchMedia env st sources models image = (Resolved art, st')"
  shows "\<exists>canvas. blob art = PngBlob canvas
           \<and> width_c canvas = sum_list (map (naturalWidth env) sources)
           \<and> height_c canvas =
               (if Max (set (map (naturalHeight env) sources)) = 0 then 720
                else Max (set (map (naturalHeight env) sources)))"
proof -
  have ne: "sources \<noteq> []"
    using assms by (rule stitchMedia_nonempty)
  then have im: "stitchImage env st sources models = (Resolved art, st')"
    using assms by (simp add: stitchMedia_def)
  obtain urls st1 where a: "assignSrc sources st = (urls, st1)"
    by (cases "assignSrc sources st") auto
  let ?els = "map toElement (zip urls (map (loadOf env) sources))"
  from stitchImage_resolved [OF im a] obtain canvas where
    c: "blob art = PngBlob canvas" "width_c canvas = sum_list (map (naturalWidth env) sources)"
       "height_c canvas = maxHeight ?els"
    and ok: "\<forall>s \<in> set sources. sourceLoads env s"
    by blast
  have hs: "map height_el ?els = map (naturalHeight env) sources"
    using ok assignSrc_length [OF a] unfolding loads_iff by (intro elements_dims(2)) simp_all
  have fm: "foldr max (map (naturalHeight env) sources) 0 = Max (set (map (naturalHeight env) sources))"
    using ne by (intro foldr_max_Max) simp
  have "maxHeight ?els =
          (let m = foldr max (map (naturalHeight env) sources) 0 in if m = 0 then 720 else m)"
    unfolding maxHeight_def hs ..
  then have "maxHeight ?els =
               (if Max (set (map (naturalHeight env) sources)) = 0 then 720
                else Max (set (map (naturalHeight env) sources)))"
    unfolding fm Let_def .
  with c show ?thesis by simp
qed

text \<open>The example of the specification: 100 x 50 and 200 x 50 give 300 x 50.\<close>

theorem image_composite_geometry_witness:
  "\<exists>art st'. stitchMedia ex_env ex_store [ex_source ''m1'' ''a.png'', ex_source ''m2'' ''b.png'']
                 ex_models image = (Resolved art, st')
     \<and> (\<exists>canvas. blob art = PngBlob canvas \<and> width_c canvas = 300 \<and> height_c canvas = 50)"
proof -
  obtain art st' where
    r: "stitchMedia ex_env ex_store [ex_source ''m1'' ''a.png'', ex_source ''m2'' ''b.png'']
          ex_models image = (Resolved art, st')"
    by (simp add: stitch_eval)
  from image_composite_geometry [OF r] obtain canvas where
    "blob art = PngBlob canvas"
    "width_c canvas = sum_list (map (naturalWidth ex_env)
        [ex_source ''m1'' ''a.png'', ex_source ''m2'' ''b.png''])"
    "height_c canvas =
       (if Max (set (map (naturalHeight ex_env)
             [ex_source ''m1'' ''a.png'', ex_source ''m2'' ''b.png''])) = 0 then 720
        else Max (set (map (naturalHeight ex_env)
             [ex_source ''m1'' ''a.png'', ex_source ''m2'' ''b.png''])))"
    by blast
  then have "blob art = PngBlob canvas \<and> width_c canvas = 300 \<and> height_c canvas = 50"
    by (simp add: naturalWidth_def naturalHeight_def loadOf_def emptySrc_def ex_env_simps ex_source_def)
  with r show ?thesis by blast
qed

text \<open>
  The claim as stated fails for a source that loads with natural height 0 (an image
  without intrinsic height): the composite succeeds, 100 pixels wide and 720 high, while
  the maximum of the natural heights is 0.
\<close>

theorem image_composite_height_counterexample:
  "map_option width_c (canvasOf (fst (stitchMedia ex_env ex_store
       [ex_source ''m1'' ''flat.svg''] ex_models image))) = Some 100
   \<and> map_option height_c (canvasOf (fst (stitchMedia ex_env ex_store
       [ex_source ''m1'' ''flat.svg''] ex_models image))) = Some 720
   \<and> Max (set (map (naturalHeight ex_env) [ex_source ''m1'' ''flat.svg''])) = 0"
  by (simp add: stitch_eval naturalHeight_def loadOf_def emptySrc_def)

text \<open>
  Claim C4. A call of \<^verbatim>\<open>stitchMedia\<close>, in either mode, resolves with an artifact only
  when the source list is not empty, the canvas context was acquired and every single
  source has loaded; and the promise is rejected with an error when the source list is
  empty, when some source fails to load, or when every source has loaded and the canvas
  context cannot be acquired.
\<close>

theorem all_or_nothing:
  "(fst (stitchMedia env st sources models mediaType) = Resolved art \<longrightarrow>
      sources \<noteq> [] \<and> context2d env \<and> (\<forall>s \<in> set sources. sourceLoads env s))
   \<and> (sources = [] \<or> (\<exists>s \<in> set sources. sourceFails env s)
        \<or> (\<not> context2d env \<and> (\<forall>s \<in> set sources. sourceLoads env s)) \<longrightarrow>
      (\<exists>e. fst (stitchMedia env st sources models mediaType) = Rejected e))"
proof (intro conjI impI)
  assume r: "fst (stitchMedia env st sources models mediaType) = Resolved art"
  obtain st' where r': "stitchMedia env st sources models mediaType = (Resolved art, st')"
    using r by (cases "stitchMedia env st sources models mediaType") simp
  obtain urls st1 where a: "assignSrc sources st = (urls, st1)"
    by (cases "assignSrc sources st") auto
  show ne: "sources \<noteq> []"
    using r' by (rule stitchMedia_nonempty)
  have both: "context2d env \<and> (\<forall>s \<in> set sources. sourceLoads env s)"
  proof (cases mediaType)
    case image
    with r' ne have "stitchImage env st sources models = (Resolved art, st')"
      by (simp add: stitchMedia_def)
    from stitchImage_resolved [OF this a] show ?thesis by blast
  next
    case video
    with r' ne have "stitchVideo env st sources models = (Resolved art, st')"
      by (simp add: stitchMedia_def)
    from stitchVideo_resolved [OF this a] show ?thesis by blast
  qed
  from both show "context2d env" ..
  from both show "\<forall>s \<in> set sources. sourceLoads env s" ..
next
  assume h: "sources = [] \<or> (\<exists>s \<in> set sources. sourceFails env s)
        \<or> (\<not> context2d env \<and> (\<forall>s \<in> set sources. sourceLoads env s))"
  show "\<exists>e. fst (stitchMedia env st sources models mediaType) = Rejected e"
  proof (cases "sources = []")
    case True
    then show ?thesis by (simp add: stitchMedia_def)
  next
    case False
    have "(\<exists>e. fst (stitchImage env st sources models) = Rejected e)
          \<and> (\<exists>e. fst (stitchVideo env st sources models) = Rejected e)"
    proof (cases "\<exists>s \<in> set sources. sourceFails env s")
      case True
      then have "Failed \<in> set (map (loadOf env) sources)"
        unfolding fails_iff .
      from stitch_rejects_on_failure [OF this] show ?thesis by blast
    next
      case False
      with h \<open>sources \<noteq> []\<close> have "\<not> context2d env" "\<forall>s \<in> set sources. sourceLoads env s"
        by blast+
      from stitch_rejects_without_context [OF this] show ?thesis by blast
    qed
    with False show ?thesis
      by (cases mediaType) (simp_all add: stitchMedia_def)
  qed
qed

text \<open>Two sources of which the second cannot be decoded: the whole call is rejected.\<close>

theorem all_or_nothing_witness:
  "sourceFails ex_env (ex_source ''m2'' ''c.png'')
   \<and> (\<exists>e. fst (stitchMedia ex_env ex_store [ex_source ''m1'' ''a.png'', ex_source ''m2'' ''c.png'']
             ex_models image) = Rejected e)
   \<and> (\<exists>e. fst (stitchMedia ex_env ex_store [] ex_models video) = Rejected e)"
proof -
  have f: "sourceFails ex_env (ex_source ''m2'' ''c.png'')"
    by (simp add: sourceFails_def loadOf_def emptySrc_def ex_env_simps ex_source_def)
  then have "\<exists>s \<in> set [ex_source ''m1'' ''a.png'', ex_source ''m2'' ''c.png'']. sourceFails ex_env s"
    by simp
  with all_or_nothing [of ex_env ex_store "[ex_source ''m1'' ''a.png'', ex_source ''m2'' ''c.png'']"
         ex_models image]
  have 1: "\<exists>e. fst (stitchMedia ex_env ex_store [ex_source ''m1'' ''a.png'', ex_source ''m2'' ''c.png'']
             ex_models image) = Rejected e"
    by blast
  from all_or_nothing [of ex_env ex_store "[]" ex_models video]
  have 2: "\<exists>e. fst (stitchMedia ex_env ex_store [] ex_models video) = Rejected e"
    by blast
  from f 1 2 show ?thesis by blast
qed

section \<open>Object URLs\<close>

lemma createObjectURL_blob: "startsWith (fst (createObjectURL st)) ''blob:''"
  by (simp add: createObjectURL_def Let_def startsWith_def)

lemma assignSrc_live:
  "assignSrc sources st = (urls, st1) \<Longrightarrow>
     live st \<subseteq> live st1
     \<and> live st1 \<subseteq> live st \<union> {u \<in> set urls. startsWith u ''blob:''}
     \<and> (\<forall>i < length sources. file_vs (sources ! i) \<noteq> None \<longrightarrow> urls ! i \<in> live st1)"
proof (induction sources arbitrary: st urls st1)
  case Nil
  then show ?case by simp
next
  case (Cons s ss)
  show ?case
  proof (cases "file_vs s")
    case None
    obtain us st2 where rest: "assignSrc ss st = (us, st2)"
      by (cases "assignSrc ss st") auto
    have eq: "urls = (case url_vs s of Some u \<Rightarrow> u | None \<Rightarrow> []) # us" "st1 = st2"
      using Cons.prems None rest by simp_all
    from Cons.IH [OF rest] have ih:
      "live st \<subseteq> live st2" "live st2 \<subseteq> live st \<union> {u \<in> set us. startsWith u ''blob:''}"
      "\<forall>i < length ss. file_vs (ss ! i) \<noteq> None \<longrightarrow> us ! i \<in> live st2"
      by blast+
    have 3: "\<forall>i < length (s # ss). file_vs ((s # ss) ! i) \<noteq> None \<longrightarrow> urls ! i \<in> live st1"
    proof (intro allI impI)
      fix i assume "i < length (s # ss)" "file_vs ((s # ss) ! i) \<noteq> None"
      then show "urls ! i \<in> live st1"
        using None ih(3) eq by (cases i) auto
    qed
    from ih(1,2) 3 show ?thesis
      unfolding eq by auto
  next
    case (Some f)
    obtain u st2 where c: "createObjectURL st = (u, st2)"
      by (cases "createObjectURL st") auto
    obtain us st3 where rest: "assignSrc ss st2 = (us, st3)"
      by (cases "assignSrc ss st2") auto
    have eq: "urls = u # us" "st1 = st3"
      using Cons.prems Some c rest by simp_all
    have u: "startsWith u ''blob:''" "live st2 = insert u (live st)"
      using createObjectURL_blob [of st] c by (auto simp: createObjectURL_def Let_def)
    from Cons.IH [OF rest] have ih:
      "live st2 \<subseteq> live st3" "live st3 \<subseteq> live st2 \<union> {u \<in> set us. startsWith u ''blob:''}"
      "\<forall>i < length ss. file_vs (ss ! i) \<noteq> None \<longrightarrow> us ! i \<in> live st3"
      by blast+
    have 3: "\<forall>i < length (s # ss). file_vs ((s # ss) ! i) \<noteq> None \<longrightarrow> urls ! i \<in> live st1"
    proof (intro allI impI)
      fix i assume "i < length (s # ss)" "file_vs ((s # ss) ! i) \<noteq> None"
      then show "urls ! i \<in> live st1"
        using ih(1,3) u(2) eq by (cases i) auto
    qed
    from ih(1,2) u 3 show ?thesis
      unfolding eq by auto
  qed
qed

lemma revokeAll_live:
  "live (revokeAll els st) = live st - {u \<in> set (map src_el els). startsWith u ''blob:''}"
  by (induction els arbitrary: st) (auto simp: revokeObjectURL_def)

text \<open>
  On the path that resolves, every object URL the call created has been revoked: no URL
  is live afterwards that was not live before.
\<close>

lemma resolved_revokes_created:
  assumes "stitchMedia env st sources models mediaType = (Resolved art, st')"
  shows "live st' \<subseteq> live st"
proof -
  have ne: "sources \<noteq> []"
    using assms by (rule stitchMedia_nonempty)
  obtain urls st1 where a: "assignSrc sources st = (urls, st1)"
    by (cases "assignSrc sources st") auto
  let ?els = "map toElement (zip urls (map (loadOf env) sources))"
  have r: "st' = revokeAll ?els st1 \<and> (\<forall>s \<in> set sources. sourceLoads env s)"
  proof (cases mediaType)
    case image
    with assms ne have "stitchImage env st sources models = (Resolved art, st')"
      by (simp add: stitchMedia_def)
    from stitchImage_resolved [OF this a] show ?thesis by blast
  next
    case video
    with assms ne have "stitchVideo env st sources models = (Resolved art, st')"
      by (simp add: stitchMedia_def)
    from stitchVideo_resolved [OF this a] show ?thesis by blast
  qed
  then have srcs: "map src_el ?els = urls"
    using assignSrc_length [OF a] unfolding loads_iff by (intro elements_dims(3)) simp_all
  have "live st' = live st1 - {u \<in> set urls. startsWith u ''blob:''}"
    using r by (simp only: revokeAll_live srcs)
  with assignSrc_live [OF a] show ?thesis by blast
qed

text \<open>
  On every path that rejects, nothing is revoked: the URL store is the one left by the
  creation of the elements, in which the URL of every source backed by a file is live.
\<close>

lemma rejected_revokes_nothing:
  assumes "stitchMedia env st sources models mediaType = (Rejected e, st')"
    and a: "assignSrc sources st = (urls, st1)"
  shows "st' = st1"
proof (cases "sources = []")
  case True
  with assms show ?thesis by (simp add: stitchMedia_def)
next
  case False
  show ?thesis
  proof (cases mediaType)
    case image
    with assms(1) False have "stitchImage env st sources models = (Rejected e, st')"
      by (simp add: stitchMedia_def)
    then show ?thesis
      unfolding stitchImage_unfold [OF a]
      by (auto simp: Let_def split: Settled.splits if_splits option.splits)
  next
    case video
    with assms(1) False have "stitchVideo env st sources models = (Rejected e, st')"
      by (simp add: stitchMedia_def)
    then show ?thesis
      unfolding stitchVideo_unfold [OF a]
      by (auto simp: Let_def split: Settled.splits if_splits option.splits FrameEnd.splits)
  qed
qed

text \<open>
  Claim C5, at the input where the code departs from it. Two image sources backed by
  local files, the second of which cannot be decoded: the call creates the object URLs
  \<^verbatim>\<open>blob:0\<close> and \<^verbatim>\<open>blob:1\<close>, is rejected, and leaves both of them live.
\<close>

theorem object_urls_live_after_rejection:
  "stitchMedia ex_env ex_store [ex_source ''m1'' ''a.png'', ex_source ''m2'' ''c.png''] ex_models image
     = (Rejected (Error ''Failed to load image: c.png''),
        \<lparr> issued = 2, live = {''blob:0'', ''blob:1''} \<rparr>)"
  by (simp add: stitch_eval insert_commute)

section \<open>Recording termination\<close>

text \<open>
  Claim C7. While the recorder is recording, a drawn frame requests the next frame
  exactly when some source video has not ended, and stops the recorder exactly when all
  have ended. Hence the loop started at frame 0 stops the recorder at frame \<open>m\<close> if and
  only if \<open>m\<close> is the first frame at which every video has ended, it runs for ever if and
  only if there is no such frame, and \<^verbatim>\<open>stitchVideo\<close> resolves only with a recording
  that was stopped at that first frame.
\<close>

theorem recording_termination:
  "(drawFrame env n recording k = Again \<longleftrightarrow> \<not> allEnded env n k)
   \<and> (drawFrame env n recording k = Stop \<longleftrightarrow> allEnded env n k)
   \<and> (frameLoop env n recording 0 = Some r \<longleftrightarrow>
        (\<exists>m. r = StoppedAt m \<and> allEnded env n m \<and> (\<forall>k < m. \<not> allEnded env n k)))
   \<and> (frameLoop env n recording 0 = None \<longleftrightarrow> (\<forall>k. \<not> allEnded env n k))
   \<and> (stitchVideo env st sources models = (Resolved art, st') \<longrightarrow>
        (\<exists>mime w h m. blob art = VideoBlob mime w h (Suc m)
           \<and> allEnded env (length sources) m \<and> (\<forall>k < m. \<not> allEnded env (length sources) k)))"
proof (intro conjI impI)
  show "drawFrame env n recording k = Again \<longleftrightarrow> \<not> allEnded env n k"
    by (simp add: drawFrame_recording)
  show "drawFrame env n recording k = Stop \<longleftrightarrow> allEnded env n k"
    by (simp add: drawFrame_recording)
  show "frameLoop env n recording 0 = Some r \<longleftrightarrow>
        (\<exists>m. r = StoppedAt m \<and> allEnded env n m \<and> (\<forall>k < m. \<not> allEnded env n k))"
    by (rule frameLoop_iff)
  show "frameLoop env n recording 0 = None \<longleftrightarrow> (\<forall>k. \<not> allEnded env n k)"
    by (rule frameLoop_None_iff)
next
  assume r: "stitchVideo env st sources models = (Resolved art, st')"
  obtain urls st1 where a: "assignSrc sources st = (urls, st1)"
    by (cases "assignSrc sources st") auto
  from stitchVideo_resolved [OF r a] obtain mime w h m where
    b: "blob art = VideoBlob mime w h (Suc m)"
    and l: "frameLoop env (length sources) recording 0 = Some (StoppedAt m)"
    by blast
  from l have "allEnded env (length sources) m \<and> (\<forall>k < m. \<not> allEnded env (length sources) k)"
    unfolding frameLoop_iff by simp
  with b show "\<exists>mime w h m. blob art = VideoBlob mime w h (Suc m)
           \<and> allEnded env (length sources) m \<and> (\<forall>k < m. \<not> allEnded env (length sources) k)"
    by blast
qed

text \<open>
  Two videos, of which video \<open>j\<close> has ended from frame \<open>2 + j\<close> on: frames 0 to 2 request
  another frame, frame 3 stops the recorder, and the artifact holds 4 frames.
\<close>

theorem recording_termination_witness:
  "drawFrame ex_env 2 recording 2 = Again
   \<and> drawFrame ex_env 2 recording 3 = Stop
   \<and> frameLoop ex_env 2 recording 0 = Some (StoppedAt 3)
   \<and> (\<exists>st'. stitchVideo ex_env ex_store [ex_source ''m1'' ''a.png'', ex_source ''m2'' ''b.png'']
               ex_models
             = (Resolved \<lparr> blob = VideoBlob ''video/webm'' 300 50 4, extension = ''webm'' \<rparr>, st'))"
proof -
  have e: "allEnded ex_env 2 k \<longleftrightarrow> 3 \<le> k" for k
  proof
    assume "allEnded ex_env 2 k"
    then have "ended ex_env k 1" by (simp add: allEnded_def)
    then show "3 \<le> k" by (simp add: ex_env_simps)
  next
    assume "3 \<le> k"
    then show "allEnded ex_env 2 k" by (auto simp: allEnded_def ex_env_simps)
  qed
  have 1: "drawFrame ex_env 2 recording 2 = Again"
    using recording_termination [of ex_env 2 2] e [of 2] by simp
  have 2: "drawFrame ex_env 2 recording 3 = Stop"
    using recording_termination [of ex_env 2 3] e [of 3] by simp
  have "\<exists>m. StoppedAt 3 = StoppedAt m \<and> allEnded ex_env 2 m \<and> (\<forall>k < m. \<not> allEnded ex_env 2 k)"
    using e by (intro exI [of _ 3]) simp
  then have 3: "frameLoop ex_env 2 recording 0 = Some (StoppedAt 3)"
    using recording_termination [of ex_env 2 0 "StoppedAt 3"] by blast
  have 4: "\<exists>st'. stitchVideo ex_env ex_store [ex_source ''m1'' ''a.png'', ex_source ''m2'' ''b.png'']
               ex_models
             = (Resolved \<lparr> blob = VideoBlob ''video/webm'' 300 50 4, extension = ''webm'' \<rparr>, st')"
    using 3 by (simp add: stitch_eval numeral_2_eq_2)
  from 1 2 3 4 show ?thesis by blast
qed

section \<open>Batch export\<close>

lemma finishArchive_no_stitch: "\<not> list_ex isStitch (fst (finishArchive zipOk mediaType archive st))"
  by (simp add: finishArchive_def finallyBlock_def catchBlock_def split: prod.splits)

lemma no_stitch_decomp: "\<not> list_ex isStitch tr \<Longrightarrow> tr \<noteq> pre @ StitchCall n out # post"
  by (auto simp: list_ex_iff)

lemma exportLoop_progress:
  "fst (exportLoop env zipOk models mediaType caseQueue count rs i archive st)
      = pre @ StitchCall n out # post \<Longrightarrow>
   \<exists>pre' q tc st0.
       pre = pre' @ [SetZipProgress (progressMsg (Suc (i + q)) count n)]
     \<and> q < length rs
     \<and> find (\<lambda>c. id_tc c = caseId (rs ! q)) caseQueue = Some tc
     \<and> name_tc tc = n
     \<and> out = fst (stitchMedia env st0 (sources_tc tc) models mediaType)
     \<and> length (filter isStitch pre) = length (filter (inQueue caseQueue) (take q rs))"
proof (induction rs arbitrary: i archive st pre)
  case Nil
  then show ?case
    using no_stitch_decomp [OF finishArchive_no_stitch] by (metis exportLoop.simps(1))
next
  case (Cons result rest)
  show ?case
  proof (cases "find (\<lambda>c. id_tc c = caseId result) caseQueue")
    case None
    with Cons.prems have
      "fst (exportLoop env zipOk models mediaType caseQueue count rest (Suc i) archive st)
         = pre @ StitchCall n out # post"
      by simp
    from Cons.IH [OF this] obtain pre' q tc st0 where
      h: "pre = pre' @ [SetZipProgress (progressMsg (Suc (Suc i + q)) count n)]"
         "q < length rest"
         "find (\<lambda>c. id_tc c = caseId (rest ! q)) caseQueue = Some tc"
         "name_tc tc = n"
         "out = fst (stitchMedia env st0 (sources_tc tc) models mediaType)"
         "length (filter isStitch pre) = length (filter (inQueue caseQueue) (take q rest))"
      by blast
    have "\<not> inQueue caseQueue result"
      using None by (simp add: inQueue_def)
    with h have
      "pre = pre' @ [SetZipProgress (progressMsg (Suc (i + Suc q)) count n)]
       \<and> Suc q < length (result # rest)
       \<and> find (\<lambda>c. id_tc c = caseId ((result # rest) ! Suc q)) caseQueue = Some tc
       \<and> name_tc tc = n
       \<and> out = fst (stitchMedia env st0 (sources_tc tc) models mediaType)
       \<and> length (filter isStitch pre)
           = length (filter (inQueue caseQueue) (take (Suc q) (result # rest)))"
      by simp
    then show ?thesis by blast
  next
    case (Some tc)
    obtain outcome st1 where s: "stitchMedia env st (sources_tc tc) models mediaType = (outcome, st1)"
      by (cases "stitchMedia env st (sources_tc tc) models mediaType") auto
    let ?P = "SetZipProgress (progressMsg (Suc i) count (name_tc tc))"
    have inq: "inQueue caseQueue result"
      using Some by (simp add: inQueue_def)
    have here: "\<exists>pre' q tc' st0.
         pre = pre' @ [SetZipProgress (progressMsg (Suc (i + q)) count n)]
       \<and> q < length (result # rest)
       \<and> find (\<lambda>c. id_tc c = caseId ((result # rest) ! q)) caseQueue = Some tc'
       \<and> name_tc tc' = n
       \<and> out = fst (stitchMedia env st0 (sources_tc tc') models mediaType)
       \<and> length (filter isStitch pre)
           = length (filter (inQueue caseQueue) (take q (result # rest)))"
      if "pre = [?P]" "n = name_tc tc" "out = outcome"
    proof -
      from that Some s have
        "pre = [] @ [SetZipProgress (progressMsg (Suc (i + 0)) count n)]
         \<and> 0 < length (result # rest)
         \<and> find (\<lambda>c. id_tc c = caseId ((result # rest) ! 0)) caseQueue = Some tc
         \<and> name_tc tc = n
         \<and> out = fst (stitchMedia env st (sources_tc tc) models mediaType)
         \<and> length (filter isStitch pre)
             = length (filter (inQueue caseQueue) (take 0 (result # rest)))"
        by simp
      then show ?thesis by blast
    qed
    show ?thesis
    proof (cases outcome)
      case (Resolved art)
      let ?entry = "(getBaseName (name_tc tc) @ ''_comparison.'' @ extension art, blob art)"
      obtain tr st2 where
        r: "exportLoop env zipOk models mediaType caseQueue count rest (Suc i) (archive @ [?entry]) st1
              = (tr, st2)"
        by (cases "exportLoop env zipOk models mediaType caseQueue count rest (Suc i)
                     (archive @ [?entry]) st1") auto
      have eq: "?P # StitchCall (name_tc tc) (Resolved art) # ZipFile (fst ?entry) (snd ?entry) # tr
                  = pre @ StitchCall n out # post"
        using Cons.prems Some s Resolved r by (simp add: Let_def)
      then consider
          (first) "pre = [?P]" "n = name_tc tc" "out = outcome"
        | (later) pre2 where
            "pre = ?P # StitchCall (name_tc tc) (Resolved art) # ZipFile (fst ?entry) (snd ?entry) # pre2"
            "tr = pre2 @ StitchCall n out # post"
        using Resolved by (auto simp: Cons_eq_append_conv)
      then show ?thesis
      proof cases
        case first
        then show ?thesis by (rule here)
      next
        case later
        from later(2) r have
          "fst (exportLoop env zipOk models mediaType caseQueue count rest (Suc i) (archive @ [?entry]) st1)
             = pre2 @ StitchCall n out # post"
          by simp
        from Cons.IH [OF this] obtain pre' q tc' st0 where
          h: "pre2 = pre' @ [SetZipProgress (progressMsg (Suc (Suc i + q)) count n)]"
             "q < length rest"
             "find (\<lambda>c. id_tc c = caseId (rest ! q)) caseQueue = Some tc'"
             "name_tc tc' = n"
             "out = fst (stitchMedia env st0 (sources_tc tc') models mediaType)"
             "length (filter isStitch pre2) = length (filter (inQueue caseQueue) (take q rest))"
          by blast
        with later(1) inq have
          "pre = (?P # StitchCall (name_tc tc) (Resolved art) # ZipFile (fst ?entry) (snd ?entry) # pre')
                   @ [SetZipProgress (progressMsg (Suc (i + Suc q)) count n)]
           \<and> Suc q < length (result # rest)
           \<and> find (\<lambda>c. id_tc c = caseId ((result # rest) ! Suc q)) caseQueue = Some tc'
           \<and> name_tc tc' = n
           \<and> out = fst (stitchMedia env st0 (sources_tc tc') models mediaType)
           \<and> length (filter isStitch pre)
               = length (filter (inQueue caseQueue) (take (Suc q) (result # rest)))"
          by simp
        then show ?thesis by blast
      qed
    next
      case (Rejected e)
      have "?P # StitchCall (name_tc tc) (Rejected e) # catchBlock = pre @ StitchCall n out # post"
        using Cons.prems Some s Rejected by simp
      then have "pre = [?P] \<and> n = name_tc tc \<and> out = outcome"
        using Rejected by (auto simp: Cons_eq_append_conv catchBlock_def finallyBlock_def)
      then show ?thesis using here by blast
    next
      case Pending
      have "[?P, StitchCall (name_tc tc) Pending] = pre @ StitchCall n out # post"
        using Cons.prems Some s Pending by simp
      then have "pre = [?P] \<and> n = name_tc tc \<and> out = outcome"
        using Pending by (auto simp: Cons_eq_append_conv)
      then show ?thesis using here by blast
    qed
  qed
qed

lemma exportLoop_rejection:
  "fst (exportLoop env zipOk models mediaType caseQueue count rs i archive st)
      = pre @ StitchCall n (Rejected e) # post \<Longrightarrow>
   post = catchBlock
   \<and> \<not> list_ex isDelivery (fst (exportLoop env zipOk models mediaType caseQueue count rs i archive st))
   \<and> length (filter isAlert (fst (exportLoop env zipOk models mediaType caseQueue count rs i archive st))) = 1
   \<and> \<not> list_ex isRejection pre"
proof (induction rs arbitrary: i archive st pre)
  case Nil
  then show ?case
    using no_stitch_decomp [OF finishArchive_no_stitch] by (metis exportLoop.simps(1))
next
  case (Cons result rest)
  show ?case
  proof (cases "find (\<lambda>c. id_tc c = caseId result) caseQueue")
    case None
    with Cons.prems have
      "fst (exportLoop env zipOk models mediaType caseQueue count rest (Suc i) archive st)
         = pre @ StitchCall n (Rejected e) # post"
      by simp
    from Cons.IH [OF this] None show ?thesis by simp
  next
    case (Some tc)
    obtain outcome st1 where s: "stitchMedia env st (sources_tc tc) models mediaType = (outcome, st1)"
      by (cases "stitchMedia env st (sources_tc tc) models mediaType") auto
    let ?P = "SetZipProgress (progressMsg (Suc i) count (name_tc tc))"
    show ?thesis
    proof (cases outcome)
      case (Resolved art)
      let ?entry = "(getBaseName (name_tc tc) @ ''_comparison.'' @ extension art, blob art)"
      obtain tr st2 where
        r: "exportLoop env zipOk models mediaType caseQueue count rest (Suc i) (archive @ [?entry]) st1
              = (tr, st2)"
        by (cases "exportLoop env zipOk models mediaType caseQueue count rest (Suc i)
                     (archive @ [?entry]) st1") auto
      have whole: "fst (exportLoop env zipOk models mediaType caseQueue count (result # rest) i archive st)
                  = ?P # StitchCall (name_tc tc) (Resolved art) # ZipFile (fst ?entry) (snd ?entry) # tr"
        using Some s Resolved r by (simp add: Let_def)
      from Cons.prems [unfolded whole] obtain pre2 where
        p: "pre = ?P # StitchCall (name_tc tc) (Resolved art) # ZipFile (fst ?entry) (snd ?entry) # pre2"
           "tr = pre2 @ StitchCall n (Rejected e) # post"
        by (auto simp: Cons_eq_append_conv)
      from p(2) r have
        "fst (exportLoop env zipOk models mediaType caseQueue count rest (Suc i) (archive @ [?entry]) st1)
           = pre2 @ StitchCall n (Rejected e) # post"
        by simp
      from Cons.IH [OF this] r have
        "post = catchBlock" "\<not> list_ex isDelivery tr" "length (filter isAlert tr) = 1"
        "\<not> list_ex isRejection pre2"
        by simp_all
      then show ?thesis
        unfolding whole p(1) by simp
    next
      case (Rejected e')
      have whole: "fst (exportLoop env zipOk models mediaType caseQueue count (result # rest) i archive st)
                  = ?P # StitchCall (name_tc tc) (Rejected e') # catchBlock"
        using Some s Rejected by simp
      from Cons.prems [unfolded whole] have "pre = [?P] \<and> post = catchBlock"
        by (auto simp: Cons_eq_append_conv catchBlock_def finallyBlock_def)
      then show ?thesis
        unfolding whole by (simp add: catchBlock_def finallyBlock_def)
    next
      case Pending
      have whole: "fst (exportLoop env zipOk models mediaType caseQueue count (result # rest) i archive st)
                  = [?P, StitchCall (name_tc tc) Pending]"
        using Some s Pending by simp
      from Cons.prems [unfolded whole] have False
        by (auto simp: Cons_eq_append_conv)
      then show ?thesis ..
    qed
  qed
qed

text \<open>
  Claim C6. In every run of the batch export over the marked cases, each call of
  \<^verbatim>\<open>stitchMedia\<close> composites a marked case that is in the queue, in the order of the
  marked cases (as many calls precede it as there are marked cases in the queue before
  it), and is directly preceded by the progress notification that names this case and its
  position among the marked cases, \<^verbatim>\<open>Processing i/total: name\<close>. If a call is rejected,
  then what follows it is exactly the \<^verbatim>\<open>catch\<close> and \<^verbatim>\<open>finally\<close> blocks (so no
  further case is processed), no call before it was rejected, the archive is neither
  generated nor offered for download anywhere in the run, and exactly one alert is shown.
\<close>

theorem batch_atomicity:
  assumes "tr = fst (handleBatchExportZip env zipOk models mediaType caseQueue voteHistory st)"
    and "repCases = filter isRepresentative voteHistory"
    and "count = length repCases"
  shows "(\<forall>pre n out post. tr = pre @ StitchCall n out # post \<longrightarrow>
            (\<exists>pre' q tc st0.
                pre = pre' @ [SetZipProgress
                                (''Processing '' @ show_nat (Suc q) @ ''/'' @ show_nat count @ '': '' @ n)]
              \<and> q < count
              \<and> find (\<lambda>c. id_tc c = caseId (repCases ! q)) caseQueue = Some tc
              \<and> name_tc tc = n
              \<and> out = fst (stitchMedia env st0 (sources_tc tc) models mediaType)
              \<and> length (filter isStitch pre) = length (filter (inQueue caseQueue) (take q repCases))))
       \<and> (\<forall>pre n e post. tr = pre @ StitchCall n (Rejected e) # post \<longrightarrow>
            post = [ConsoleError, Alert ''Failed to create batch export. Please try again.'',
                    SetIsProcessingZip False, SetZipProgress []]
          \<and> \<not> list_ex isRejection pre
          \<and> \<not> list_ex isDelivery tr
          \<and> length (filter isAlert tr) = 1)"
proof (cases "count = 0")
  case True
  then have "tr = []"
    using assms by (simp add: handleBatchExportZip_def)
  then show ?thesis by simp
next
  case False
  let ?loop = "fst (exportLoop env zipOk models mediaType caseQueue count repCases 0 [] st)"
  have tr: "tr = SetIsProcessingZip True # ?loop"
    using False assms by (simp add: handleBatchExportZip_def Let_def split: prod.splits)
  have a: "\<exists>pre' q tc st0.
                pre = pre' @ [SetZipProgress
                                (''Processing '' @ show_nat (Suc q) @ ''/'' @ show_nat count @ '': '' @ n)]
              \<and> q < count
              \<and> find (\<lambda>c. id_tc c = caseId (repCases ! q)) caseQueue = Some tc
              \<and> name_tc tc = n
              \<and> out = fst (stitchMedia env st0 (sources_tc tc) models mediaType)
              \<and> length (filter isStitch pre) = length (filter (inQueue caseQueue) (take q repCases))"
    if "tr = pre @ StitchCall n out # post" for pre n out post
  proof -
    from that tr obtain pre2 where p: "pre = SetIsProcessingZip True # pre2"
      "?loop = pre2 @ StitchCall n out # post"
      by (auto simp: Cons_eq_append_conv)
    from exportLoop_progress [OF p(2)] obtain pre' q tc st0 where
      h: "pre2 = pre' @ [SetZipProgress (progressMsg (Suc (0 + q)) count n)]"
         "q < length repCases"
         "find (\<lambda>c. id_tc c = caseId (repCases ! q)) caseQueue = Some tc"
         "name_tc tc = n"
         "out = fst (stitchMedia env st0 (sources_tc tc) models mediaType)"
         "length (filter isStitch pre2) = length (filter (inQueue caseQueue) (take q repCases))"
      by blast
    with p(1) assms(3) have
      "pre = (SetIsProcessingZip True # pre') @ [SetZipProgress
               (''Processing '' @ show_nat (Suc q) @ ''/'' @ show_nat count @ '': '' @ n)]
       \<and> q < count
       \<and> find (\<lambda>c. id_tc c = caseId (repCases ! q)) caseQueue = Some tc
       \<and> name_tc tc = n
       \<and> out = fst (stitchMedia env st0 (sources_tc tc) models mediaType)
       \<and> length (filter isStitch pre) = length (filter (inQueue caseQueue) (take q repCases))"
      by (simp add: progressMsg_def)
    then show ?thesis by blast
  qed
  have b: "post = [ConsoleError, Alert ''Failed to create batch export. Please try again.'',
                    SetIsProcessingZip False, SetZipProgress []]
          \<and> \<not> list_ex isRejection pre
          \<and> \<not> list_ex isDelivery tr
          \<and> length (filter isAlert tr) = 1"
    if "tr = pre @ StitchCall n (Rejected e) # post" for pre n e post
  proof -
    from that tr obtain pre2 where p: "pre = SetIsProcessingZip True # pre2"
      "?loop = pre2 @ StitchCall n (Rejected e) # post"
      by (auto simp: Cons_eq_append_conv)
    from exportLoop_rejection [OF p(2)] show ?thesis
      unfolding tr p(1) by (simp add: catchBlock_def finallyBlock_def)
  qed
  from a b show ?thesis by blast
qed

text \<open>
  Three marked cases, the second of which has a source that cannot be decoded: the first
  two are announced as 1/3 and 2/3 and composited, the third never is, nothing is
  delivered and one alert is shown.
\<close>

theorem batch_atomicity_witness:
  "list_ex isRejection (fst (handleBatchExportZip ex_env True ex_models image ex_queue ex_history ex_store))
   \<and> \<not> list_ex isDelivery (fst (handleBatchExportZip ex_env True ex_models image ex_queue ex_history ex_store))
   \<and> length (filter isAlert (fst (handleBatchExportZip ex_env True ex_models image ex_queue ex_history ex_store))) = 1
   \<and> length (filter isStitch (fst (handleBatchExportZip ex_env True ex_models image ex_queue ex_history ex_store))) = 2
   \<and> List.map_filter (\<lambda>e. case e of SetZipProgress m \<Rightarrow> Some m | _ \<Rightarrow> None)
         (fst (handleBatchExportZip ex_env True ex_models image ex_queue ex_history ex_store))
       = [''Processing 1/3: x'', ''Processing 2/3: y'', []]"
proof -
  let ?tr = "fst (handleBatchExportZip ex_env True ex_models image ex_queue ex_history ex_store)"
  have r: "list_ex isRejection ?tr"
    by code_simp
  have s: "length (filter isStitch ?tr) = 2"
    by code_simp
  have m: "List.map_filter (\<lambda>e. case e of SetZipProgress m \<Rightarrow> Some m | _ \<Rightarrow> None) ?tr
             = [''Processing 1/3: x'', ''Processing 2/3: y'', []]"
    by code_simp
  from r obtain pre x post where d: "?tr = pre @ x # post" and x: "isRejection x"
    unfolding list_ex_iff by (meson split_list)
  from x obtain n e where "x = StitchCall n (Rejected e)"
    by (auto elim: isRejection.elims)
  with d have "?tr = pre @ StitchCall n (Rejected e) # post"
    by simp
  with batch_atomicity [OF refl refl refl, of ex_env True ex_models image ex_queue ex_history ex_store]
  have "\<not> list_ex isDelivery ?tr \<and> length (filter isAlert ?tr) = 1"
    by blast
  with r s m show ?thesis by blast
qed

section \<open>Seeking\<close>

text \<open>
  Claim C8, as the code has it. In video mode \<^verbatim>\<open>handleSeek\<close> assigns the requested
  time itself, unclamped, to every mounted media element (empty slots stay empty) and
  makes it the reported current time; whenever the requested time lies in
  \<open>[0, duration]\<close> this value is \<open>clamp t 0 duration\<close>. In image mode it changes nothing.
\<close>

theorem seek_broadcasts_requested_time:
  "currentTime (handleSeek video t s) = t
   \<and> map (map_option currentTime_v) (videoRefs (handleSeek video t s))
       = map (map_option (\<lambda>v. t)) (videoRefs s)
   \<and> (0 \<le> t \<and> t \<le> duration s \<longrightarrow>
        currentTime (handleSeek video t s) = clamp t 0 (duration s))
   \<and> duration (handleSeek video t s) = duration s
   \<and> handleSeek image t s = s"
proof -
  have "map_option currentTime_v (map_option (\<lambda>v. v \<lparr> currentTime_v := t \<rparr>) x)
          = map_option (\<lambda>v. t) x" for x :: "VideoElement option"
    by (cases x) simp_all
  then show ?thesis
    by (simp add: handleSeek_def clamp_def)
qed

text \<open>With the duration known to be 10, a seek to 4 inside the range reports 4.\<close>

theorem seek_broadcasts_requested_time_witness:
  "currentTime (handleSeek video 4 (ex_arena \<lparr> duration := 10 \<rparr>)) = 4
   \<and> clamp 4 0 (duration (ex_arena \<lparr> duration := 10 \<rparr>)) = 4
   \<and> map (map_option currentTime_v) (videoRefs (handleSeek video 4 (ex_arena \<lparr> duration := 10 \<rparr>)))
       = [Some 4, Some 4]"
  using seek_broadcasts_requested_time [of 4 "ex_arena \<lparr> duration := 10 \<rparr>"]
  by (simp add: ex_arena_def Arena_init_def)

text \<open>
  The claim as stated fails on a fresh case, whose duration is still 0 while the range
  input reaches up to 100: a seek to 50 is broadcast and reported as 50, not as
  \<open>clamp 50 0 0 = 0\<close>.
\<close>

theorem seek_clamping_counterexample:
  "duration ex_arena = 0 \<and> sliderMax ex_arena = 100
   \<and> currentTime (handleSeek video 50 ex_arena) = 50
   \<and> map (map_option currentTime_v) (videoRefs (handleSeek video 50 ex_arena)) = [Some 50, Some 50]
   \<and> clamp 50 0 (duration ex_arena) = 0"
  by (simp add: handleSeek_def ex_arena_def Arena_init_def sliderMax_def clamp_def)

section \<open>The blind-mode order\<close>

lemma sign_of_draw:
  "signOf (randomComparator (draw b k)) =
     (if k < 2 ^ b then Negative else if k = 2 ^ b then Zero else Positive)"
proof -
  have "real k / 2 ^ Suc b - 1 / 2 = (real k - 2 ^ b) / 2 ^ Suc b"
    by (simp add: field_simps)
  moreover have "(real k - 2 ^ b) / 2 ^ Suc b < 0 \<longleftrightarrow> real k < 2 ^ b"
    by (simp add: divide_less_0_iff)
  moreover have "(real k - 2 ^ b) / 2 ^ Suc b = 0 \<longleftrightarrow> real k = 2 ^ b"
    by simp
  moreover have "real k < 2 ^ b \<longleftrightarrow> k < 2 ^ b"
    by (metis of_nat_less_iff of_nat_numeral of_nat_power)
  moreover have "real k = 2 ^ b \<longleftrightarrow> k = 2 ^ b"
    by (metis of_nat_eq_iff of_nat_numeral of_nat_power)
  ultimately show ?thesis
    by (simp add: signOf_def randomComparator_def draw_def)
qed

lemma count_upto: "length (filter P [0 ..< n]) = card {k. k < n \<and> P k}"
proof -
  have "card (set (filter P [0 ..< n])) = length (filter P [0 ..< n])"
    by (rule distinct_card) simp
  moreover have "set (filter P [0 ..< n]) = {k. k < n \<and> P k}"
    by auto
  ultimately show ?thesis by simp
qed

lemma pSign_values:
  "pSign b Negative = 1 / 2"
  "pSign b Zero = 1 / 2 ^ Suc b"
  "pSign b Positive = 1 / 2 - 1 / 2 ^ Suc b"
proof -
  have lt: "(2::nat) ^ b < 2 ^ Suc b" by simp
  have "{k. k < 2 ^ Suc b \<and> (if k < 2 ^ b then Negative else if k = 2 ^ b then Zero else Positive) = Negative}
          = {..< (2::nat) ^ b}"
    using lt by (auto split: if_splits)
  then have n: "pSign b Negative = real (2 ^ b) / 2 ^ Suc b"
    by (simp add: pSign_def sign_of_draw count_upto del: power_Suc)
  have "{k. k < 2 ^ Suc b \<and> (if k < 2 ^ b then Negative else if k = 2 ^ b then Zero else Positive) = Zero}
          = {(2::nat) ^ b}"
    using lt by (auto split: if_splits)
  then have z: "pSign b Zero = 1 / 2 ^ Suc b"
    by (simp add: pSign_def sign_of_draw count_upto del: power_Suc)
  have "{k. k < 2 ^ Suc b \<and> (if k < 2 ^ b then Negative else if k = 2 ^ b then Zero else Positive) = Positive}
          = {Suc (2 ^ b) ..< (2::nat) ^ Suc b}"
    by (auto split: if_splits)
  then have p: "pSign b Positive = real (2 ^ Suc b - Suc (2 ^ b)) / 2 ^ Suc b"
    by (simp add: pSign_def sign_of_draw count_upto del: power_Suc)
  show "pSign b Negative = 1 / 2"
    using n by simp
  show "pSign b Zero = 1 / 2 ^ Suc b"
    by (rule z)
  have "Suc (2 ^ b) \<le> (2::nat) ^ Suc b"
    by simp
  then have "real (2 ^ Suc b - Suc (2 ^ b)) = 2 ^ Suc b - (2 ^ b + 1)"
    by (simp add: of_nat_diff del: power_Suc)
  then show "pSign b Positive = 1 / 2 - 1 / 2 ^ Suc b"
    using p by (simp add: field_simps)
qed

lemma dyadic_pSign: "dyadic (pSign b s)"
  unfolding dyadic_def pSign_def by blast

lemma dyadic_add: "dyadic x \<Longrightarrow> dyadic y \<Longrightarrow> dyadic (x + y)"
proof -
  assume "dyadic x" "dyadic y"
  then obtain k d l e where x: "x = real k / 2 ^ d" and y: "y = real l / 2 ^ e"
    unfolding dyadic_def by blast
  have "x + y = real (k * 2 ^ e + l * 2 ^ d) / 2 ^ (d + e)"
    by (simp add: x y power_add field_simps)
  then show ?thesis
    unfolding dyadic_def by blast
qed

lemma dyadic_mult: "dyadic x \<Longrightarrow> dyadic y \<Longrightarrow> dyadic (x * y)"
proof -
  assume "dyadic x" "dyadic y"
  then obtain k d l e where x: "x = real k / 2 ^ d" and y: "y = real l / 2 ^ e"
    unfolding dyadic_def by blast
  have "x * y = real (k * l) / 2 ^ (d + e)"
    by (simp add: x y power_add)
  then show ?thesis
    unfolding dyadic_def by blast
qed

lemma dyadic_prob: "dyadic (prob b t E)"
proof (induction t)
  case (Done order)
  have "(0::real) = real 0 / 2 ^ 0" "(1::real) = real 1 / 2 ^ 0"
    by simp_all
  then show ?case
    unfolding dyadic_def by (cases "E order") (simp_all, blast+)
next
  case (Compare neg zero pos)
  then show ?case
    by (simp add: dyadic_add dyadic_mult dyadic_pSign)
qed

lemma power_two_not_multiple:
  fixes m :: nat
  assumes "odd m" "1 < m"
  shows "m * k \<noteq> 2 ^ d"
proof
  assume "m * k = 2 ^ d"
  then have "m dvd 2 ^ d"
    by (metis dvd_triv_left)
  moreover have "coprime m (2 ^ d)"
    using assms(1) by (simp add: coprime_power_right_iff)
  ultimately have "m = 1"
    using coprime_common_divisor_nat [of m "2 ^ d" m] by simp
  with assms(2) show False by simp
qed

lemma dyadic_not_reciprocal:
  fixes m :: nat
  assumes "dyadic x" "odd m" "1 < m"
  shows "x \<noteq> 1 / real m"
proof
  assume e: "x = 1 / real m"
  from assms(1) obtain k d where x: "x = real k / 2 ^ d"
    unfolding dyadic_def by blast
  from e x assms(3) have "real m * real k = 2 ^ d"
    by (simp add: field_simps)
  then have "real (m * k) = real (2 ^ d)"
    by simp
  then have "m * k = 2 ^ d"
    by (simp only: of_nat_eq_iff)
  with power_two_not_multiple [OF assms(2,3)] show False by blast
qed

text \<open>
  The probability is the share of the equally likely sequences of draws that lead to an
  order satisfying \<open>E\<close>, for every number of draws that suffices for the sorter.
\<close>

lemma count_concat:
  "length (filter P (concat (map (\<lambda>ys. map (\<lambda>y. y # ys) xs) yss)))
     = sum_list (map (\<lambda>ys. length (filter (\<lambda>y. P (y # ys)) xs)) yss)"
  by (induction yss) (simp_all add: filter_map comp_def)

lemma count_by_sign:
  "length (filter (\<lambda>y. Q (f y)) xs)
     = (if Q Negative then length (filter (\<lambda>y. f y = Negative) xs) else 0)
     + (if Q Zero then length (filter (\<lambda>y. f y = Zero) xs) else 0)
     + (if Q Positive then length (filter (\<lambda>y. f y = Positive) xs) else 0)"
proof (induction xs)
  case Nil
  then show ?case by simp
next
  case (Cons y ys)
  then show ?case by (cases "f y") auto
qed

lemma sum_list_indicator:
  "sum_list (map (\<lambda>ys. if P ys then (c::nat) else 0) yss) = c * length (filter P yss)"
  by (induction yss) simp_all

lemma favourable_Done:
  "favourable b n (Done order) E = (if E order then (2 ^ Suc b) ^ n else 0)"
  by (simp add: favourable_def length_n_lists del: power_Suc)

lemma favourable_Compare:
  "favourable b (Suc n) (Compare neg zero pos) E
     = length (filter (\<lambda>k. signOf (randomComparator (draw b k)) = Negative) [0 ..< 2 ^ Suc b]) * favourable b n neg E
     + length (filter (\<lambda>k. signOf (randomComparator (draw b k)) = Zero) [0 ..< 2 ^ Suc b]) * favourable b n zero E
     + length (filter (\<lambda>k. signOf (randomComparator (draw b k)) = Positive) [0 ..< 2 ^ Suc b]) * favourable b n pos E"
proof -
  let ?xs = "[0 ..< (2::nat) ^ Suc b]"
  let ?ok = "\<lambda>t ks. case runSort t (map (draw b) ks) of Some order \<Rightarrow> E order | None \<Rightarrow> False"
  let ?sg = "\<lambda>k. signOf (randomComparator (draw b k))"
  have head: "?ok (Compare neg zero pos) (y # ys)
                = (case ?sg y of Negative \<Rightarrow> ?ok neg ys | Zero \<Rightarrow> ?ok zero ys | Positive \<Rightarrow> ?ok pos ys)"
    for y ys
    by (cases "?sg y") simp_all
  have inner: "length (filter (\<lambda>y. ?ok (Compare neg zero pos) (y # ys)) ?xs)
          = (if ?ok neg ys then length (filter (\<lambda>y. ?sg y = Negative) ?xs) else 0)
          + (if ?ok zero ys then length (filter (\<lambda>y. ?sg y = Zero) ?xs) else 0)
          + (if ?ok pos ys then length (filter (\<lambda>y. ?sg y = Positive) ?xs) else 0)" for ys
    unfolding head
    using count_by_sign [of "\<lambda>s. case s of Negative \<Rightarrow> ?ok neg ys | Zero \<Rightarrow> ?ok zero ys | Positive \<Rightarrow> ?ok pos ys" ?sg ?xs]
    by simp
  have "favourable b (Suc n) (Compare neg zero pos) E
          = sum_list (map (\<lambda>ys. length (filter (\<lambda>y. ?ok (Compare neg zero pos) (y # ys)) ?xs))
              (List.n_lists n ?xs))"
    unfolding favourable_def n_lists.simps count_concat ..
  also have "\<dots> = sum_list (map (\<lambda>ys.
            (if ?ok neg ys then length (filter (\<lambda>y. ?sg y = Negative) ?xs) else 0)
          + (if ?ok zero ys then length (filter (\<lambda>y. ?sg y = Zero) ?xs) else 0)
          + (if ?ok pos ys then length (filter (\<lambda>y. ?sg y = Positive) ?xs) else 0)) (List.n_lists n ?xs))"
    unfolding inner ..
  also have "\<dots> = length (filter (\<lambda>y. ?sg y = Negative) ?xs) * length (filter (?ok neg) (List.n_lists n ?xs))
                 + length (filter (\<lambda>y. ?sg y = Zero) ?xs) * length (filter (?ok zero) (List.n_lists n ?xs))
                 + length (filter (\<lambda>y. ?sg y = Positive) ?xs) * length (filter (?ok pos) (List.n_lists n ?xs))"
    by (simp only: sum_list_addf sum_list_indicator)
  finally show ?thesis
    unfolding favourable_def .
qed

lemma prob_counts_draws:
  "depth t \<le> n \<Longrightarrow> prob b t E = real (favourable b n t E) / (2 ^ Suc b) ^ n"
proof (induction t arbitrary: n)
  case (Done order)
  then show ?case
    by (simp add: favourable_Done del: power_Suc)
next
  case (Compare neg zero pos)
  then obtain m where n: "n = Suc m" and d: "depth neg \<le> m" "depth zero \<le> m" "depth pos \<le> m"
    by (cases n) auto
  have "prob b (Compare neg zero pos) E
          = pSign b Negative * (real (favourable b m neg E) / (2 ^ Suc b) ^ m)
          + pSign b Zero * (real (favourable b m zero E) / (2 ^ Suc b) ^ m)
          + pSign b Positive * (real (favourable b m pos E) / (2 ^ Suc b) ^ m)"
    using Compare.IH(1) [OF d(1)] Compare.IH(2) [OF d(2)] Compare.IH(3) [OF d(3)] by simp
  also have "\<dots> = real (favourable b (Suc m) (Compare neg zero pos) E) / (2 ^ Suc b) ^ Suc m"
  proof -
    define N :: real where "N = 2 ^ Suc b"
    have N: "N \<noteq> 0" by (simp add: N_def)
    have "x / N * (y / N ^ m) = x * y / N ^ Suc m" for x y :: real
      by simp
    then show ?thesis
      unfolding favourable_Compare pSign_def N_def [symmetric]
      by (simp only: of_nat_add of_nat_mult add_divide_distrib)
  qed
  finally show ?case
    unfolding n .
qed

text \<open>
  Straight insertion sort on three variants: the third one keeps the last position with
  probability above one half.
\<close>

lemma insertion_sort_last_stays:
  assumes "distinct [x, y, z]"
  shows "prob b (insertionSort [x, y, z]) (\<lambda>order. order ! 2 = z) = 1 / 2 + 1 / 2 ^ Suc b"
proof -
  have "prob b (insertionSort [x, y, z]) (\<lambda>order. order ! 2 = z)
          = (pSign b Negative + pSign b Zero + pSign b Positive) * (pSign b Negative + pSign b Zero)"
    using assms by (simp add: insertionSort_def algebra_simps)
  also have "\<dots> = 1 / 2 + 1 / 2 ^ Suc b"
    by (simp add: pSign_values)
  finally show ?thesis .
qed

text \<open>
  Claim C9, where the code departs from it. Whatever comparison strategy the engine's
  sort follows, the probability that a given variant is shown at a given position is a
  sum of products of the probabilities of the comparator's signs, hence a fraction with a
  power of two as denominator: with three variants it is never 1/3, and with five never
  1/5.
\<close>

theorem blind_shuffle_not_uniform:
  "prob b sorter (\<lambda>order. order ! position = variant) \<noteq> 1 / 3
   \<and> prob b sorter (\<lambda>order. order ! position = variant) \<noteq> 1 / 5"
proof -
  have d: "dyadic (prob b sorter (\<lambda>order. order ! position = variant))"
    by (rule dyadic_prob)
  from dyadic_not_reciprocal [OF d, of 3] dyadic_not_reciprocal [OF d, of 5]
  show ?thesis by simp
qed

end
